theory Spec2Isabelle
  imports Main "HOL-Library.Word"
begin

unbundle bit_operations_syntax

section \<open>Bytes and the GUID layout (guid.go)\<close>

type_synonym byte = "8 word"
type_synonym bytes = "byte list"

text \<open>
  \<^verbatim>\<open>type GUID [byteSize]byte\<close>: a Go array of 26 bytes, passed and returned by value.
  It is embedded as a byte list; the fixed length is the predicate \<open>is_GUID\<close>, which every
  theorem about "a GUID" carries as its hypothesis.
\<close>

type_synonym GUID = bytes

definition byteSize :: nat where "byteSize = 26"
definition blockSize :: nat where "blockSize = 64"
definition fieldSize :: nat where "fieldSize = 4"
definition tsStart :: nat where "tsStart = 2"
definition tsEnd :: nat where "tsEnd = tsStart + 2 * fieldSize"
definition fpStart :: nat where "fpStart = tsEnd"
definition fpEnd :: nat where "fpEnd = fpStart + fieldSize"
definition icStart :: nat where "icStart = fpEnd"
definition icEnd :: nat where "icEnd = icStart + fieldSize"
definition dcStart :: nat where "dcStart = icEnd"
definition dcEnd :: nat where "dcEnd = dcStart + fieldSize"
definition rdStart :: nat where "rdStart = dcEnd"
definition rdEnd :: nat where "rdEnd = rdStart + fieldSize"
definition base :: nat where "base = 36"
definition maxInt :: int where "maxInt = 1679616"

definition is_GUID :: "GUID \<Rightarrow> bool" where
  "is_GUID g \<longleftrightarrow> length g = byteSize"

text \<open>\<^verbatim>\<open>GUID{}\<close>, the zero value of the array type.\<close>

definition GUID_zero :: GUID where
  "GUID_zero = replicate byteSize 0"

section \<open>Variable-length integers (Go's encoding/binary)\<close>

text \<open>
  \<^verbatim>\<open>binary.PutUvarint\<close>:
  \<^verbatim>\<open>i := 0; for x >= 0x80 { buf[i] = byte(x) | 0x80; x >>= 7; i++ }; buf[i] = byte(x)\<close>.
  The index \<open>i\<close> walks the buffer from its start, so the recursion is on the buffer.
  Writing \<open>buf[i]\<close> beyond the slice is Go's run-time panic: \<open>None\<close>. The bytes of the
  buffer after the last one written keep their old value. The returned count is dropped
  by every caller (\<^verbatim>\<open>_ = binary.PutVarint(...)\<close>) and is not modelled.
\<close>

fun PutUvarint :: "bytes \<Rightarrow> 64 word \<Rightarrow> bytes option" where
  "PutUvarint [] x = None"
| "PutUvarint (b # buf) x =
     (if x \<ge> 0x80 then
        (case PutUvarint buf (drop_bit 7 x) of
           None \<Rightarrow> None
         | Some buf' \<Rightarrow> Some ((ucast x OR 0x80) # buf'))
      else Some (ucast x # buf))"

text \<open>
  \<^verbatim>\<open>binary.PutVarint\<close>: \<^verbatim>\<open>ux := uint64(x) << 1; if x < 0 { ux = ^ux }\<close>. The
  \<^verbatim>\<open>int64\<close> argument is an \<open>int\<close> within the range of the type.
\<close>

definition PutVarint :: "bytes \<Rightarrow> int \<Rightarrow> bytes option" where
  "PutVarint buf x =
     (let ux = push_bit 1 (word_of_int x :: 64 word);
          ux = (if x < 0 then NOT ux else ux)
      in PutUvarint buf ux)"

definition MaxVarintLen64 :: nat where "MaxVarintLen64 = 10"

text \<open>
  \<^verbatim>\<open>binary.Uvarint\<close>: the loop over the bytes of the buffer, with the index \<open>i\<close>, the
  value \<open>x\<close> read so far and the shift \<open>s\<close>. It returns the value and the number of
  bytes read (0 when the buffer ends before the last byte of the value, negative on
  overflow).
\<close>

fun Uvarint_loop :: "bytes \<Rightarrow> nat \<Rightarrow> 64 word \<Rightarrow> nat \<Rightarrow> 64 word \<times> int" where
  "Uvarint_loop [] i x s = (0, 0)"
| "Uvarint_loop (b # buf) i x s =
     (if i = MaxVarintLen64 then (0, - (int i + 1))
      else if b < 0x80 then
        (if i = MaxVarintLen64 - 1 \<and> b > 1 then (0, - (int i + 1))
         else (x OR push_bit s (ucast b), int i + 1))
      else Uvarint_loop buf (i + 1) (x OR push_bit s (ucast (b AND 0x7f))) (s + 7))"

definition Uvarint :: "bytes \<Rightarrow> 64 word \<times> int" where
  "Uvarint buf = Uvarint_loop buf 0 0 0"

text \<open>
  \<^verbatim>\<open>binary.Varint\<close>: \<^verbatim>\<open>x := int64(ux >> 1); if ux&1 != 0 { x = ^x }\<close>.
\<close>

definition Varint :: "bytes \<Rightarrow> int \<times> int" where
  "Varint buf =
     (let (ux, n) = Uvarint buf;
          x = drop_bit 1 ux;
          x = (if ux AND 1 \<noteq> 0 then NOT x else x)
      in (sint x, n))"

section \<open>Integers and text (Go's strconv)\<close>

text \<open>Conversions to \<^verbatim>\<open>int32\<close> and \<^verbatim>\<open>int64\<close> keep the low bits.\<close>

definition int32 :: "int \<Rightarrow> int" where
  "int32 x = signed_take_bit 31 x"

definition int64 :: "int \<Rightarrow> int" where
  "int64 x = signed_take_bit 63 x"

text \<open>\<^verbatim>\<open>const digits = "0123456789abcdefghijklmnopqrstuvwxyz"\<close>\<close>

definition digits :: bytes where
  "digits = [0x30, 0x31, 0x32, 0x33, 0x34, 0x35, 0x36, 0x37, 0x38, 0x39,
             0x61, 0x62, 0x63, 0x64, 0x65, 0x66, 0x67, 0x68, 0x69, 0x6a, 0x6b, 0x6c, 0x6d,
             0x6e, 0x6f, 0x70, 0x71, 0x72, 0x73, 0x74, 0x75, 0x76, 0x77, 0x78, 0x79, 0x7a]"

text \<open>
  \<^verbatim>\<open>formatBits\<close>, the general case (the base is 36, not a power of two and not 10):
  \<^verbatim>\<open>for u >= b { i--; q := u / b; a[i] = digits[uint(u-q*b)]; u = q }; i--; a[i] = digits[uint(u)]\<close>.
  The digits are written from the end of a buffer; here the more significant digits are
  put in front.
\<close>

function formatBits :: "nat \<Rightarrow> bytes" where
  "formatBits u =
     (if u \<ge> base then formatBits (u div base) @ [digits ! (u - (u div base) * base)]
      else [digits ! u])"
  by pat_completeness auto
termination
  by (relation "measure (\<lambda>u. u)") (auto simp: base_def)

declare formatBits.simps [simp del]

text \<open>
  \<^verbatim>\<open>strconv.FormatInt(i, base)\<close>: a minus sign and the digits of the magnitude for a
  negative value.
\<close>

definition FormatInt :: "int \<Rightarrow> bytes" where
  "FormatInt i = (if i < 0 then 0x2d # formatBits (nat (- i)) else formatBits (nat i))"

datatype num_error = ErrSyntax | ErrRange

text \<open>\<^verbatim>\<open>func lower(c byte) byte { return c | ('x' - 'X') }\<close>\<close>

definition lower :: "byte \<Rightarrow> byte" where
  "lower c = c OR 0x20"

text \<open>
  The digit value of a character in \<^verbatim>\<open>ParseUint\<close>'s loop; \<open>None\<close> is the
  \<^verbatim>\<open>default\<close> branch of its switch (a syntax error).
\<close>

definition digit_value :: "byte \<Rightarrow> nat option" where
  "digit_value c =
     (if 0x30 \<le> c \<and> c \<le> 0x39 then Some (unat (c - 0x30))
      else if 0x61 \<le> lower c \<and> lower c \<le> 0x7a then Some (unat (lower c - 0x61 + 10))
      else None)"

definition maxUint64 :: nat where "maxUint64 = 2 ^ 64 - 1"

text \<open>
  The loop of \<^verbatim>\<open>ParseUint\<close> for an explicit base and bit size 64:
  \<open>cutoff = maxUint64 / base + 1\<close>, \<open>maxVal = 2^64 - 1\<close>. The test
  \<^verbatim>\<open>n1 < n || n1 > maxVal\<close> detects that \<open>n * base + d\<close> does not fit 64 bits; on
  unbounded naturals that is the comparison with \<open>maxUint64\<close>.
\<close>

fun ParseUint_loop :: "bytes \<Rightarrow> nat \<Rightarrow> num_error + nat" where
  "ParseUint_loop [] n = Inr n"
| "ParseUint_loop (c # cs) n =
     (case digit_value c of
        None \<Rightarrow> Inl ErrSyntax
      | Some d \<Rightarrow>
          if d \<ge> base then Inl ErrSyntax
          else if n \<ge> maxUint64 div base + 1 then Inl ErrRange
          else if n * base + d > maxUint64 then Inl ErrRange
          else ParseUint_loop cs (n * base + d))"

definition ParseUint :: "bytes \<Rightarrow> num_error + nat" where
  "ParseUint s = (if s = [] then Inl ErrSyntax else ParseUint_loop s 0)"

text \<open>
  \<^verbatim>\<open>strconv.ParseInt(s, base, blockSize)\<close>: an optional sign, then \<^verbatim>\<open>ParseUint\<close>,
  then the range check against \<open>cutoff = 2^63\<close>.
\<close>

definition ParseInt :: "bytes \<Rightarrow> num_error + int" where
  "ParseInt s =
     (if s = [] then Inl ErrSyntax
      else
        (let neg = (hd s = 0x2d);
             s' = (if hd s = 0x2b \<or> hd s = 0x2d then tl s else s)
         in case ParseUint s' of
              Inl e \<Rightarrow> Inl e
            | Inr un \<Rightarrow>
                if \<not> neg \<and> un \<ge> 2 ^ (blockSize - 1) then Inl ErrRange
                else if neg \<and> un > 2 ^ (blockSize - 1) then Inl ErrRange
                else Inr (if neg then - int un else int un)))"

section \<open>The codec (guid.go)\<close>

text \<open>
  Modelled from the spec: the helper \<^verbatim>\<open>filter\<close> is called by the setters but its
  source is not among the files at hand. The spec: the value is range-filtered to
  \<open>[0, 1679616)\<close> via modulo; values outside this range are reduced modulo that bound,
  never rejected.
\<close>

definition filter_guid :: "int \<Rightarrow> int" where
  "filter_guid v = v mod maxInt"

text \<open>
  Modelled from the spec: the helper \<^verbatim>\<open>leftPad\<close> is called by \<^verbatim>\<open>String\<close> but its
  source is not among the files at hand. The spec: padding is left-padding with the
  zero-digit character, up to the given number of characters.
\<close>

definition leftPad :: "bytes \<Rightarrow> nat \<Rightarrow> bytes" where
  "leftPad s n = replicate (n - length s) 0x30 @ s"

text \<open>The slice expression \<^verbatim>\<open>g[lo:hi]\<close>.\<close>

definition subslice :: "bytes \<Rightarrow> nat \<Rightarrow> nat \<Rightarrow> bytes" where
  "subslice g lo hi = take (hi - lo) (drop lo g)"

text \<open>
  \<^verbatim>\<open>_ = binary.PutVarint(g[lo:hi], x); return g\<close>: the slice shares the bytes of the
  receiver's own copy of the array, so the bytes \<^verbatim>\<open>PutVarint\<close> writes are those of the
  returned GUID at \<open>lo\<close>, ..., \<open>hi - 1\<close>.
\<close>

definition PutVarint_at :: "GUID \<Rightarrow> nat \<Rightarrow> nat \<Rightarrow> int \<Rightarrow> GUID option" where
  "PutVarint_at g lo hi x =
     (case PutVarint (subslice g lo hi) x of
        None \<Rightarrow> None
      | Some field \<Rightarrow> Some (take lo g @ field @ drop hi g))"

text \<open>\<^verbatim>\<open>WithPrefixBytes(b1, b2)\<close>, applied to a GUID.\<close>

definition WithPrefixBytes :: "byte \<Rightarrow> byte \<Rightarrow> GUID \<Rightarrow> GUID" where
  "WithPrefixBytes b1 b2 g = (g[0 := b1])[1 := b2]"

text \<open>
  \<^verbatim>\<open>time.Duration(d).Milliseconds()\<close> is the integer division \<^verbatim>\<open>int64(d) / 1e6\<close>,
  which truncates towards zero.
\<close>

definition Milliseconds :: "int \<Rightarrow> int" where
  "Milliseconds d = sgn d * (\<bar>d\<bar> div 1000000)"

text \<open>
  \<^verbatim>\<open>func (g GUID) SetTime(t time.Time) GUID\<close>. The time is given by \<^verbatim>\<open>t.UnixNano()\<close>,
  the only thing the function reads from it.
\<close>

definition SetTime :: "GUID \<Rightarrow> int \<Rightarrow> GUID option" where
  "SetTime g unixNano = PutVarint_at g tsStart tsEnd (Milliseconds unixNano)"

text \<open>
  \<^verbatim>\<open>func (g GUID) SetFingerprint(v int32) GUID\<close> and its getter, then the same for the
  counters and the random value. An \<^verbatim>\<open>int32\<close> argument is an \<open>int\<close> within the
  range of the type. A setter returns \<open>None\<close> when \<^verbatim>\<open>PutVarint\<close> panics.
\<close>

definition SetFingerprint :: "GUID \<Rightarrow> int \<Rightarrow> GUID option" where
  "SetFingerprint g v = PutVarint_at g fpStart fpEnd (filter_guid v)"

definition Fingerprint :: "GUID \<Rightarrow> int" where
  "Fingerprint g = int32 (fst (Varint (subslice g fpStart fpEnd)))"

definition SetCounters :: "GUID \<Rightarrow> int \<Rightarrow> int \<Rightarrow> GUID option" where
  "SetCounters g incr decr =
     (case PutVarint_at g icStart icEnd (filter_guid incr) of
        None \<Rightarrow> None
      | Some g' \<Rightarrow> PutVarint_at g' dcStart dcEnd (filter_guid decr))"

definition Counters :: "GUID \<Rightarrow> int \<times> int" where
  "Counters g =
     (int32 (fst (Varint (subslice g icStart icEnd))), int32 (fst (Varint (subslice g dcStart dcEnd))))"

definition SetRandom :: "GUID \<Rightarrow> int \<Rightarrow> GUID option" where
  "SetRandom g v = PutVarint_at g rdStart rdEnd (filter_guid v)"

definition Random :: "GUID \<Rightarrow> int" where
  "Random g = int32 (fst (Varint (subslice g rdStart rdEnd)))"

text \<open>
  \<^verbatim>\<open>func (g GUID) String() string\<close>, and the five pieces it writes after the two prefix
  bytes.
\<close>

definition tsText :: "GUID \<Rightarrow> bytes" where
  "tsText g = leftPad (FormatInt (fst (Varint (subslice g tsStart tsEnd)))) (fieldSize * 2)"

definition fpText :: "GUID \<Rightarrow> bytes" where
  "fpText g = leftPad (FormatInt (fst (Varint (subslice g fpStart fpEnd)))) fieldSize"

definition icText :: "GUID \<Rightarrow> bytes" where
  "icText g = leftPad (FormatInt (fst (Varint (subslice g icStart icEnd)))) fieldSize"

definition dcText :: "GUID \<Rightarrow> bytes" where
  "dcText g = leftPad (FormatInt (fst (Varint (subslice g dcStart dcEnd)))) fieldSize"

definition rdText :: "GUID \<Rightarrow> bytes" where
  "rdText g = leftPad (FormatInt (fst (Varint (subslice g rdStart rdEnd)))) fieldSize"

definition String :: "GUID \<Rightarrow> bytes" where
  "String g = subslice g 0 2 @ tsText g @ fpText g @ icText g @ dcText g @ rdText g"

text \<open>
  The text layout in the words of the spec, for comparison with \<^verbatim>\<open>String\<close>; it does not
  use \<^verbatim>\<open>leftPad\<close>. A piece is a decoded value in base 36 left-padded to \<open>n\<close> characters
  when it is the text \<^verbatim>\<open>strconv.FormatInt\<close> gives for the value, preceded by as many zero
  digits as bring it to \<open>n\<close> characters. A string has the layout of a GUID when it has 26
  characters, the first 2 are the raw prefix bytes, and the pieces at the positions of
  the fields are the padded timestamp (8 characters), fingerprint, increment counter,
  decrement counter and random value (4 characters each).
\<close>

definition padded_base36 :: "int \<Rightarrow> nat \<Rightarrow> bytes \<Rightarrow> bool" where
  "padded_base36 v n piece \<longleftrightarrow>
     length (FormatInt v) \<le> n \<and>
     piece = replicate (n - length (FormatInt v)) 0x30 @ FormatInt v"

definition spec_text_layout :: "GUID \<Rightarrow> bytes \<Rightarrow> bool" where
  "spec_text_layout g s \<longleftrightarrow>
     length s = byteSize \<and>
     subslice s 0 2 = subslice g 0 2 \<and>
     padded_base36 (fst (Varint (subslice g tsStart tsEnd))) (fieldSize * 2) (subslice s tsStart tsEnd) \<and>
     padded_base36 (fst (Varint (subslice g fpStart fpEnd))) fieldSize (subslice s fpStart fpEnd) \<and>
     padded_base36 (fst (Varint (subslice g icStart icEnd))) fieldSize (subslice s icStart icEnd) \<and>
     padded_base36 (fst (Varint (subslice g dcStart dcEnd))) fieldSize (subslice s dcStart dcEnd) \<and>
     padded_base36 (fst (Varint (subslice g rdStart rdEnd))) fieldSize (subslice s rdStart rdEnd)"

text \<open>
  \<^verbatim>\<open>func (g GUID) Slug() string\<close>. Indexing the string beyond its length is Go's
  run-time panic: \<open>None\<close>.
\<close>

definition Slug :: "GUID \<Rightarrow> bytes option" where
  "Slug g =
     (let gg = String g in
      if 25 < length gg then
        Some [gg ! 6, gg ! 7, gg ! 8, gg ! 9, gg ! 16, gg ! 17,
              gg ! 20, gg ! 21, gg ! 22, gg ! 23, gg ! 24, gg ! 25]
      else None)"

text \<open>
  The errors of \<^verbatim>\<open>Parse\<close>, which the source builds with \<^verbatim>\<open>fmt.Errorf\<close>: "the byte
  slice must be exactly 26 bytes in length", and "invalid time / fingerprint / increment
  counter / decrement counter / random value", each wrapping the error of
  \<^verbatim>\<open>strconv.ParseInt\<close>.
\<close>

datatype error =
    InvalidLength
  | InvalidTimestamp num_error
  | InvalidFingerprint num_error
  | InvalidIncrementCounter num_error
  | InvalidDecrementCounter num_error
  | InvalidRandom num_error

text \<open>
  \<^verbatim>\<open>func Parse(in []byte) (GUID, error)\<close>. The result is Go's pair, the error being
  \<open>None\<close> for \<^verbatim>\<open>nil\<close>; the outer \<open>None\<close> is a run-time panic inside a setter.
  \<^verbatim>\<open>time.Unix(0, t*1e6)\<close> is a time whose \<^verbatim>\<open>UnixNano()\<close> is the 64-bit product.
\<close>

definition Parse :: "bytes \<Rightarrow> (GUID \<times> error option) option" where
  "Parse inp =
     (if length inp \<noteq> byteSize then Some (GUID_zero, Some InvalidLength)
      else
        let g = (GUID_zero[0 := inp ! 0])[1 := inp ! 1] in
        case ParseInt (subslice inp tsStart tsEnd) of
          Inl err \<Rightarrow> Some (GUID_zero, Some (InvalidTimestamp err))
        | Inr t \<Rightarrow>
        (case SetTime g (int64 (t * 1000000)) of None \<Rightarrow> None | Some g \<Rightarrow>
        (case ParseInt (subslice inp fpStart fpEnd) of
          Inl err \<Rightarrow> Some (GUID_zero, Some (InvalidFingerprint err))
        | Inr fingerprint \<Rightarrow>
        (case SetFingerprint g (int32 fingerprint) of None \<Rightarrow> None | Some g \<Rightarrow>
        (case ParseInt (subslice inp icStart icEnd) of
          Inl err \<Rightarrow> Some (GUID_zero, Some (InvalidIncrementCounter err))
        | Inr incr \<Rightarrow>
        (case ParseInt (subslice inp dcStart dcEnd) of
          Inl err \<Rightarrow> Some (GUID_zero, Some (InvalidDecrementCounter err))
        | Inr decr \<Rightarrow>
        (case SetCounters g (int32 incr) (int32 decr) of None \<Rightarrow> None | Some g \<Rightarrow>
        (case ParseInt (subslice inp rdStart rdEnd) of
          Inl err \<Rightarrow> Some (GUID_zero, Some (InvalidRandom err))
        | Inr r \<Rightarrow>
        (case SetRandom g (int32 r) of None \<Rightarrow> None | Some g \<Rightarrow>
           Some (g, None))))))))))"

text \<open>
  Sequences of setter calls, as guid\_test.go builds its GUID from \<^verbatim>\<open>GUID{}\<close>:
  \<^verbatim>\<open>g = g.SetRandom(rng); g = g.SetCounters(500, 1000); ...\<close>. A call is one of the
  four setters or the option \<^verbatim>\<open>WithPrefixBytes\<close>; the calls are applied from left to
  right, and a run-time panic of one of them ends the sequence.
\<close>

datatype setter_call =
    Call_WithPrefixBytes byte byte
  | Call_SetTime int
  | Call_SetFingerprint int
  | Call_SetCounters int int
  | Call_SetRandom int

fun apply_call :: "setter_call \<Rightarrow> GUID \<Rightarrow> GUID option" where
  "apply_call (Call_WithPrefixBytes b1 b2) g = Some (WithPrefixBytes b1 b2 g)"
| "apply_call (Call_SetTime unixNano) g = SetTime g unixNano"
| "apply_call (Call_SetFingerprint v) g = SetFingerprint g v"
| "apply_call (Call_SetCounters incr decr) g = SetCounters g incr decr"
| "apply_call (Call_SetRandom v) g = SetRandom g v"

fun apply_calls :: "setter_call list \<Rightarrow> GUID \<Rightarrow> GUID option" where
  "apply_calls [] g = Some g"
| "apply_calls (c # cs) g = (case apply_call c g of None \<Rightarrow> None | Some g' \<Rightarrow> apply_calls cs g')"

text \<open>
  A sequence of calls is valid when every setter is called at most once, the time is
  between 0 and \<open>36^8 - 1\<close> milliseconds after the epoch, and the numeric values are in
  \<open>[0, maxInt)\<close>. The prefix may be set any number of times.
\<close>

fun call_in_range :: "setter_call \<Rightarrow> bool" where
  "call_in_range (Call_WithPrefixBytes b1 b2) = True"
| "call_in_range (Call_SetTime unixNano) =
     (0 \<le> Milliseconds unixNano \<and> Milliseconds unixNano < 36 ^ 8)"
| "call_in_range (Call_SetFingerprint v) = (0 \<le> v \<and> v < maxInt)"
| "call_in_range (Call_SetCounters incr decr) =
     (0 \<le> incr \<and> incr < maxInt \<and> 0 \<le> decr \<and> decr < maxInt)"
| "call_in_range (Call_SetRandom v) = (0 \<le> v \<and> v < maxInt)"

datatype field = TimeField | FingerprintField | CountersField | RandomField

fun call_fields :: "setter_call \<Rightarrow> field list" where
  "call_fields (Call_WithPrefixBytes b1 b2) = []"
| "call_fields (Call_SetTime unixNano) = [TimeField]"
| "call_fields (Call_SetFingerprint v) = [FingerprintField]"
| "call_fields (Call_SetCounters incr decr) = [CountersField]"
| "call_fields (Call_SetRandom v) = [RandomField]"

definition valid_calls :: "setter_call list \<Rightarrow> bool" where
  "valid_calls cs \<longleftrightarrow> list_all call_in_range cs \<and> distinct (concat (map call_fields cs))"

section \<open>Hex encoding (Go's encoding/hex, as used by the signer)\<close>

text \<open>\<^verbatim>\<open>const hextable = "0123456789abcdef"\<close>\<close>

definition hextable :: bytes where
  "hextable = [0x30, 0x31, 0x32, 0x33, 0x34, 0x35, 0x36, 0x37, 0x38, 0x39,
               0x61, 0x62, 0x63, 0x64, 0x65, 0x66]"

text \<open>
  \<^verbatim>\<open>hex.Encode\<close>: for each source byte \<open>v\<close> it writes \<open>hextable[v>>4]\<close> and
  \<open>hextable[v&0x0f]\<close>. The destination is made with \<open>hex.EncodedLen\<close>, so it is exactly
  the bytes written.
\<close>

fun hex_Encode :: "bytes \<Rightarrow> bytes" where
  "hex_Encode [] = []"
| "hex_Encode (v # src) =
     hextable ! unat (drop_bit 4 v) # hextable ! unat (v AND 0x0f) # hex_Encode src"

text \<open>
  \<^verbatim>\<open>reverseHexTable\<close>: the value of a hex digit of either case, \<open>0xff\<close> for every other
  byte.
\<close>

definition reverseHexTable :: "byte \<Rightarrow> byte" where
  "reverseHexTable c =
     (if 0x30 \<le> c \<and> c \<le> 0x39 then c - 0x30
      else if 0x61 \<le> c \<and> c \<le> 0x66 then c - 0x61 + 10
      else if 0x41 \<le> c \<and> c \<le> 0x46 then c - 0x41 + 10
      else 0xff)"

datatype hex_error = InvalidByteError byte | ErrLength

text \<open>
  \<^verbatim>\<open>hex.DecodeString\<close>: two characters at a time; an invalid character is reported
  before an odd length.
\<close>

fun hex_DecodeString :: "bytes \<Rightarrow> hex_error + bytes" where
  "hex_DecodeString (p # q # src) =
     (let a = reverseHexTable p; b = reverseHexTable q in
      if a > 0x0f then Inl (InvalidByteError p)
      else if b > 0x0f then Inl (InvalidByteError q)
      else (case hex_DecodeString src of
              Inl e \<Rightarrow> Inl e
            | Inr dst \<Rightarrow> Inr ((push_bit 4 a OR b) # dst)))"
| "hex_DecodeString [p] =
     (if reverseHexTable p > 0x0f then Inl (InvalidByteError p) else Inl ErrLength)"
| "hex_DecodeString [] = Inr []"

section \<open>The signer\<close>

definition sha256_Size :: nat where "sha256_Size = 32"

text \<open>
  The loop of \<^verbatim>\<open>Sign\<close>:
  \<^verbatim>\<open>for i := 2; i < 14; i++ { sum[i-2] = sum[i-2] | g[i]; sum[j] = sum[j] | g[j-6]; j-- }\<close>
\<close>

function sign_loop :: "GUID \<Rightarrow> nat \<Rightarrow> nat \<Rightarrow> bytes \<Rightarrow> bytes" where
  "sign_loop g i j sm =
     (if i < 14 then
        (let sm1 = sm[i - 2 := sm ! (i - 2) OR g ! i];
             sm2 = sm1[j := sm1 ! j OR g ! (j - 6)]
         in sign_loop g (i + 1) (j - 1) sm2)
      else sm)"
  by pat_completeness auto
termination
  by (relation "measure (\<lambda>(g, i, j, sm). 14 - i)") auto

declare sign_loop.simps [simp del]

text \<open>
  \<^verbatim>\<open>func (g GUID) Sign(in []byte) []byte\<close>. The digest function \<^verbatim>\<open>sha256.Sum256\<close>
  belongs to Go's standard library; it is the parameter \<open>Sum256\<close>, of which the
  theorems only use that it returns 32 bytes. \<open>None\<close> is the \<^verbatim>\<open>nil\<close> slice.
\<close>

definition Sign :: "(bytes \<Rightarrow> bytes) \<Rightarrow> GUID \<Rightarrow> bytes \<Rightarrow> bytes option" where
  "Sign Sum256 g inp =
     (if length inp = 0 then None
      else
        (let sm = Sum256 inp;
             sm = sign_loop g 2 (sha256_Size - 1) sm;
             sm = sm[12 := sm ! 12 OR g ! 0];
             sm = sm[13 := sm ! 13 OR g ! 1]
         in Some (hex_Encode sm)))"

text \<open>The loop of \<^verbatim>\<open>DidSign\<close>, with its two early returns.\<close>

function didSign_loop :: "GUID \<Rightarrow> bytes \<Rightarrow> nat \<Rightarrow> nat \<Rightarrow> bool" where
  "didSign_loop g sm i j =
     (if i < 14 then
        (if sm ! (i - 2) AND g ! i \<noteq> g ! i then False
         else if sm ! j AND g ! (j - 6) \<noteq> g ! (j - 6) then False
         else didSign_loop g sm (i + 1) (j - 1))
      else True)"
  by pat_completeness auto
termination
  by (relation "measure (\<lambda>(g, sm, i, j). 14 - i)") auto

declare didSign_loop.simps [simp del]

text \<open>\<^verbatim>\<open>func (g GUID) DidSign(in string) bool\<close>\<close>

definition DidSign :: "GUID \<Rightarrow> bytes \<Rightarrow> bool" where
  "DidSign g inp =
     (case hex_DecodeString inp of
        Inl err \<Rightarrow> False
      | Inr sm \<Rightarrow>
          if length sm \<noteq> sha256_Size then False
          else if sm ! 12 AND g ! 0 \<noteq> g ! 0 then False
          else if sm ! 13 AND g ! 1 \<noteq> g ! 1 then False
          else didSign_loop g sm 2 (sha256_Size - 1))"

section \<open>Concrete values used in the examples\<close>

text \<open>
  The GUID that guid\_test.go expects from parsing \<^verbatim>\<open>"xokp8l85n201pq00dw00rs6rgq"\<close>.
\<close>

definition example_GUID :: GUID where
  "example_GUID =
     [0x78, 0x6f, 0x9c, 0xce, 0xd5, 0xbf, 0xb6, 0x5e, 0x0, 0x0,
      0xdc, 0x22, 0x0, 0x0, 0xe8, 0x7, 0x0, 0x0, 0xd0, 0xf, 0x0,
      0x0, 0x94, 0xc2, 0x26, 0x0]"

text \<open>
  A digest function for concrete inputs: on the one-byte input \<^verbatim>\<open>"x"\<close> it returns the
  SHA-256 digest of that input, on every other input 32 zero bytes. The general theorems
  hold for every function that returns 32 bytes.
\<close>

definition Sum256_example :: "bytes \<Rightarrow> bytes" where
  "Sum256_example inp =
     (if inp = [0x78] then
        [0x2d, 0x71, 0x16, 0x42, 0xb7, 0x26, 0xb0, 0x44, 0x01, 0x62, 0x7c, 0xa9, 0xfb, 0xac,
         0x32, 0xf5, 0xc8, 0x53, 0x0f, 0xb1, 0x90, 0x3c, 0xc4, 0xdb, 0x02, 0x25, 0x87, 0x17,
         0x92, 0x1a, 0x48, 0x81]
      else replicate 32 0)"

text \<open>The text \<^verbatim>\<open>"xokp8l85n201pq00dw00rs6rgq"\<close> of guid\_test.go, as bytes.\<close>

definition example_text :: bytes where
  "example_text =
     [0x78, 0x6f, 0x6b, 0x70, 0x38, 0x6c, 0x38, 0x35, 0x6e, 0x32, 0x30, 0x31, 0x70, 0x71,
      0x30, 0x30, 0x64, 0x77, 0x30, 0x30, 0x72, 0x73, 0x36, 0x72, 0x67, 0x71]"

text \<open>
  A second GUID: it differs from \<open>example_GUID\<close> in the prefix (\<^verbatim>\<open>"nw"\<close>) and in the
  fingerprint (1 instead of 2222).
\<close>

definition other_GUID :: GUID where
  "other_GUID =
     [0x6e, 0x77, 0x9c, 0xce, 0xd5, 0xbf, 0xb6, 0x5e, 0x0, 0x0,
      0x02, 0x0, 0x0, 0x0, 0xe8, 0x7, 0x0, 0x0, 0xd0, 0xf, 0x0,
      0x0, 0x94, 0xc2, 0x26, 0x0]"

text \<open>
  The "single char" case of signer\_test.go: the GUID text, the GUID it parses to, and the
  signature the test expects for the data \<^verbatim>\<open>"x"\<close>.
\<close>

definition signer_test_text :: bytes where
  "signer_test_text =
     [0x74, 0x6a, 0x6c, 0x37, 0x37, 0x7a, 0x62, 0x72, 0x66, 0x68, 0x34, 0x33, 0x6a, 0x6b,
      0x30, 0x30, 0x71, 0x73, 0x34, 0x75, 0x6e, 0x30, 0x71, 0x72, 0x35, 0x37]"

definition signer_test_GUID :: GUID where
  "signer_test_GUID =
     [0x74, 0x6a, 0xba, 0xba, 0xc4, 0x93, 0xda, 0x60, 0x00, 0x00, 0xe0, 0xab, 0x17, 0x00,
      0x88, 0x0f, 0x00, 0x00, 0xb8, 0xd0, 0x1b, 0x00, 0xd6, 0xaf, 0x98, 0x01]"

definition signer_test_signature :: bytes where
  "signer_test_signature =
     [0x62, 0x66, 0x66, 0x62, 0x64, 0x36, 0x64, 0x33, 0x66, 0x66, 0x36, 0x36, 0x62, 0x30,
      0x34, 0x34, 0x65, 0x31, 0x65, 0x62, 0x37, 0x66, 0x61, 0x39, 0x66, 0x66, 0x65, 0x65,
      0x33, 0x32, 0x66, 0x35, 0x63, 0x38, 0x35, 0x33, 0x30, 0x66, 0x62, 0x31, 0x39, 0x38,
      0x33, 0x66, 0x63, 0x34, 0x64, 0x62, 0x62, 0x61, 0x66, 0x35, 0x39, 0x66, 0x31, 0x37,
      0x64, 0x36, 0x62, 0x66, 0x64, 0x38, 0x38, 0x31]"

section \<open>Definitions used in the proofs\<close>

text \<open>
  The GUIDs reached by valid sequences of setter calls, with the set of fields whose
  setter has been called.
\<close>

inductive built :: "field set \<Rightarrow> GUID \<Rightarrow> bool" where
  built_zero: "built {} GUID_zero"
| built_prefix: "built S g \<Longrightarrow> built S (WithPrefixBytes b1 b2 g)"
| built_time:
    "built S g \<Longrightarrow> TimeField \<notin> S \<Longrightarrow>
     0 \<le> Milliseconds unixNano \<Longrightarrow> Milliseconds unixNano < 36 ^ 8 \<Longrightarrow>
     SetTime g unixNano = Some g' \<Longrightarrow> built (insert TimeField S) g'"
| built_fingerprint:
    "built S g \<Longrightarrow> FingerprintField \<notin> S \<Longrightarrow> 0 \<le> v \<Longrightarrow> v < maxInt \<Longrightarrow>
     SetFingerprint g v = Some g' \<Longrightarrow> built (insert FingerprintField S) g'"
| built_counters:
    "built S g \<Longrightarrow> CountersField \<notin> S \<Longrightarrow> 0 \<le> incr \<Longrightarrow> incr < maxInt \<Longrightarrow>
     0 \<le> decr \<Longrightarrow> decr < maxInt \<Longrightarrow>
     SetCounters g incr decr = Some g' \<Longrightarrow> built (insert CountersField S) g'"
| built_random:
    "built S g \<Longrightarrow> RandomField \<notin> S \<Longrightarrow> 0 \<le> v \<Longrightarrow> v < maxInt \<Longrightarrow>
     SetRandom g v = Some g' \<Longrightarrow> built (insert RandomField S) g'"

text \<open>
  A field is clean when it holds what \<^verbatim>\<open>PutVarint\<close> writes into a zeroed field for a
  value below the bound: the encoding, then zero bytes. A GUID is canonical when every
  field is clean, and a field whose setter has not been called is zero.
\<close>

definition clean_field :: "nat \<Rightarrow> int \<Rightarrow> bytes \<Rightarrow> bool" where
  "clean_field n bound enc \<longleftrightarrow>
     (\<exists>v. 0 \<le> v \<and> v < bound \<and> PutVarint (replicate n 0) v = Some enc)"

definition canonical :: "field set \<Rightarrow> GUID \<Rightarrow> bool" where
  "canonical S g \<longleftrightarrow>
     (\<exists>p t f i d r. g = p @ t @ f @ i @ d @ r \<and> length p = 2 \<and>
        clean_field 8 (36 ^ 8) t \<and> clean_field 4 maxInt f \<and> clean_field 4 maxInt i \<and>
        clean_field 4 maxInt d \<and> clean_field 4 maxInt r \<and>
        (TimeField \<notin> S \<longrightarrow> t = replicate 8 0) \<and>
        (FingerprintField \<notin> S \<longrightarrow> f = replicate 4 0) \<and>
        (CountersField \<notin> S \<longrightarrow> i = replicate 4 0 \<and> d = replicate 4 0) \<and>
        (RandomField \<notin> S \<longrightarrow> r = replicate 4 0))"

text \<open>
  The bytes that \<^verbatim>\<open>Sign\<close> hex-encodes, position by position: the digest with the GUID
  folded in. It is the right-hand side of the characterisation of \<^verbatim>\<open>Sign\<close> below.
\<close>

definition folded_digest :: "GUID \<Rightarrow> bytes \<Rightarrow> bytes" where
  "folded_digest g sm = map (\<lambda>k.
      if k < 12 then sm ! k OR g ! (k + 2)
      else if k = 12 then sm ! 12 OR g ! 0
      else if k = 13 then sm ! 13 OR g ! 1
      else if 20 \<le> k then sm ! k OR g ! (k - 6)
      else sm ! k) [0..<32]"

section \<open>Layout facts\<close>

lemmas layout_defs =
  byteSize_def blockSize_def fieldSize_def tsStart_def tsEnd_def fpStart_def fpEnd_def
  icStart_def icEnd_def dcStart_def dcEnd_def rdStart_def rdEnd_def base_def

lemma example_GUID_is_GUID: "is_GUID example_GUID"
  by (simp add: is_GUID_def example_GUID_def byteSize_def)

section \<open>Variable-length integers: decoding what was encoded\<close>

lemma PutUvarint_length: "PutUvarint buf x = Some enc \<Longrightarrow> length enc = length buf"
  by (induction buf arbitrary: x enc) (auto split: if_splits option.splits)

lemma drop7_bound:
  fixes x :: "64 word"
  assumes "unat x < 2 ^ (7 * Suc n)"
  shows "unat (drop_bit 7 x) < 2 ^ (7 * n)"
proof -
  have "unat (drop_bit 7 x) = unat x div 2 ^ 7"
    by (simp add: drop_bit_eq_div unat_div)
  moreover have "unat x < 2 ^ 7 * 2 ^ (7 * n)" using assms by (simp add: power_add)
  ultimately show ?thesis by (simp add: less_mult_imp_div_less mult.commute)
qed

lemma PutUvarint_Some:
  "buf \<noteq> [] \<Longrightarrow> unat x < 2 ^ (7 * length buf) \<Longrightarrow> \<exists>enc. PutUvarint buf x = Some enc"
proof (induction buf arbitrary: x)
  case Nil
  then show ?case by simp
next
  case (Cons b buf)
  show ?case
  proof (cases "x \<ge> 0x80")
    case False then show ?thesis by simp
  next
    case True
    then have "128 \<le> unat x" by (simp add: word_le_nat_alt)
    with Cons.prems have ne: "buf \<noteq> []" by (cases buf) auto
    from Cons.prems have "unat (drop_bit 7 x) < 2 ^ (7 * length buf)"
      using drop7_bound[of x "length buf"] by simp
    from Cons.IH[OF ne this] show ?thesis using True by auto
  qed
qed

lemma cont_byte_ge: "\<not> ((b::byte) OR 0x80 < 0x80)"
  by (metis le_word_or2 word_bw_comms(2) not_le)

lemma low7: "ucast ((ucast (x::64 word) OR (0x80::byte)) AND 0x7f) = (take_bit 7 x :: 64 word)"
proof -
  have a: "(0x7f::byte) = mask 7" by (simp add: mask_eq_exp_minus_1)
  have b: "(ucast x OR (0x80::byte)) AND 0x7f = ucast x AND 0x7f"
    by (simp add: word_ao_dist)
  show ?thesis unfolding b unfolding a
    by (rule bit_word_eqI) (auto simp: bit_simps)
qed

lemma join7: "push_bit s (take_bit 7 x) OR push_bit (s + 7) (drop_bit 7 x) = push_bit s (x :: 64 word)"
proof (rule bit_word_eqI)
  fix n assume "n < LENGTH(64)"
  show "bit (push_bit s (take_bit 7 x) OR push_bit (s + 7) (drop_bit 7 x)) n = bit (push_bit s x) n"
  proof (cases "n - s < 7")
    case True then show ?thesis by (auto simp: bit_simps)
  next
    case False
    then have "7 + (n - (s + 7)) = n - s" "s + 7 \<le> n" "s \<le> n" by auto
    then show ?thesis using False by (auto simp: bit_simps)
  qed
qed

lemma small_byte:
  assumes "\<not> x \<ge> (0x80 :: 64 word)"
  shows "ucast (ucast x :: byte) = x" "(ucast x :: byte) < 0x80"
proof -
  have u: "unat x < 128" using assms by (simp add: word_le_nat_alt)
  have t: "take_bit 8 x = x"
    by (rule less_mask_eq[unfolded take_bit_eq_mask[symmetric]]) (use u in \<open>simp add: word_less_nat_alt\<close>)
  have "ucast (ucast x :: byte) = take_bit 8 x"
    by (rule bit_word_eqI) (auto simp: bit_simps)
  then show "ucast (ucast x :: byte) = x" using t by simp
  have "unat (ucast x :: byte) = unat x" using u by (simp add: unsigned_ucast_eq take_bit_nat_eq_self)
  then show "(ucast x :: byte) < 0x80" using u by (simp add: word_less_nat_alt)
qed

lemma unat_word_of_int_64:
  "0 \<le> k \<Longrightarrow> k < 2 ^ 64 \<Longrightarrow> unat (word_of_int k :: 64 word) = nat k"
  by (simp add: unsigned_of_int take_bit_int_eq_self)

lemma sint_word_of_int_64:
  "- (2 ^ 63) \<le> k \<Longrightarrow> k < 2 ^ 63 \<Longrightarrow> sint (word_of_int k :: 64 word) = k"
  by (simp add: signed_of_int signed_take_bit_int_eq_self)

lemma push1: "push_bit 1 (word_of_int v :: 64 word) = word_of_int (2 * v)"
  by (simp add: push_bit_eq_mult)

lemma drop1: 
  assumes "0 \<le> k" "k < 2 ^ 64"
  shows "drop_bit 1 (word_of_int k :: 64 word) = word_of_int (k div 2)"
proof -
  have "unat (drop_bit 1 (word_of_int k :: 64 word)) = unat (word_of_int k :: 64 word) div 2"
    by (simp add: drop_bit_eq_div unat_div)
  also have "\<dots> = nat k div 2" using assms by (simp add: unat_word_of_int_64)
  also have "\<dots> = nat (k div 2)" using assms by (simp add: nat_div_distrib)
  also have "\<dots> = unat (word_of_int (k div 2) :: 64 word)"
    using assms by (subst unat_word_of_int_64) auto
  finally show ?thesis by (simp add: word_unat_eq_iff)
qed

lemma zigzag_nonneg:
  assumes "0 \<le> v" "v < 2 ^ 63"
  shows "drop_bit 1 (push_bit 1 (word_of_int v :: 64 word)) = word_of_int v"
    and "push_bit 1 (word_of_int v :: 64 word) AND 1 = 0"
    and "sint (word_of_int v :: 64 word) = v"
    and "unat (push_bit 1 (word_of_int v :: 64 word)) = nat (2 * v)"
proof -
  show "drop_bit 1 (push_bit 1 (word_of_int v :: 64 word)) = word_of_int v"
    unfolding push1 using assms by (subst drop1) auto
  show "push_bit 1 (word_of_int v :: 64 word) AND 1 = 0"
  proof (rule bit_word_eqI)
    fix n show "bit (push_bit 1 (word_of_int v :: 64 word) AND 1) n = bit (0 :: 64 word) n"
      by (cases n) (simp_all add: bit_simps bit_0 even_and_iff)
  qed
  show "sint (word_of_int v :: 64 word) = v"
    using assms by (simp add: sint_word_of_int_64)
  show "unat (push_bit 1 (word_of_int v :: 64 word)) = nat (2 * v)"
    unfolding push1 using assms by (subst unat_word_of_int_64) auto
qed

lemma not_push1: "NOT (push_bit 1 (word_of_int v :: 64 word)) = word_of_int (- 2 * v - 1)"
  unfolding push1 by (simp add: not_eq_complement)

lemma zigzag_neg:
  assumes "v < 0" "- (2 ^ 63) \<le> v"
  shows "NOT (drop_bit 1 (NOT (push_bit 1 (word_of_int v :: 64 word)))) = word_of_int v"
    and "NOT (push_bit 1 (word_of_int v :: 64 word)) AND 1 \<noteq> 0"
    and "sint (word_of_int v :: 64 word) = v"
    and "unat (NOT (push_bit 1 (word_of_int v :: 64 word))) = nat (- 2 * v - 1)"
proof -
  have k: "0 \<le> - 2 * v - 1" "- 2 * v - 1 < 2 ^ 64" using assms by auto
  have d: "(- 2 * v - 1) div 2 = - v - 1" by auto
  show "NOT (drop_bit 1 (NOT (push_bit 1 (word_of_int v :: 64 word)))) = word_of_int v"
    unfolding not_push1 drop1[OF k] d by (simp add: not_eq_complement)
  show "NOT (push_bit 1 (word_of_int v :: 64 word)) AND 1 \<noteq> 0"
  proof
    assume "NOT (push_bit 1 (word_of_int v :: 64 word)) AND 1 = 0"
    then have "bit (NOT (push_bit 1 (word_of_int v :: 64 word)) AND 1) 0 = bit (0 :: 64 word) 0"
      by simp
    then show False by (simp add: bit_simps bit_0 even_and_iff even_not_iff)
  qed
  show "sint (word_of_int v :: 64 word) = v"
    using assms by (simp add: sint_word_of_int_64)
  show "unat (NOT (push_bit 1 (word_of_int v :: 64 word))) = nat (- 2 * v - 1)"
    unfolding not_push1 using k by (rule unat_word_of_int_64)
qed

lemma Uvarint_loop_PutUvarint:
  "PutUvarint buf x = Some enc \<Longrightarrow> i + length buf \<le> 9 \<Longrightarrow>
   fst (Uvarint_loop enc i acc s) = acc OR push_bit s x"
proof (induction buf arbitrary: x enc i acc s)
  case Nil
  then show ?case by simp
next
  case (Cons b buf)
  have i: "i \<noteq> MaxVarintLen64" "i \<noteq> MaxVarintLen64 - 1"
    using Cons.prems(2) by (simp_all add: MaxVarintLen64_def)
  show ?case
  proof (cases "x \<ge> 0x80")
    case False
    with Cons.prems(1) have enc: "enc = ucast x # buf" by simp
    show ?thesis using small_byte[OF False] i by (simp add: enc)
  next
    case True
    with Cons.prems(1) obtain enc' where
      enc': "PutUvarint buf (drop_bit 7 x) = Some enc'" and enc: "enc = (ucast x OR 0x80) # enc'"
      by (auto split: option.splits)
    have "fst (Uvarint_loop enc' (i + 1) (acc OR push_bit s (take_bit 7 x)) (s + 7))
          = (acc OR push_bit s (take_bit 7 x)) OR push_bit (s + 7) (drop_bit 7 x)"
      using Cons.IH[OF enc'] Cons.prems(2) by simp
    also have "\<dots> = acc OR push_bit s x"
      by (simp add: join7 or.assoc)
    finally show ?thesis
      using i by (simp add: enc cont_byte_ge low7)
  qed
qed

lemma pow7_split: "0 < n \<Longrightarrow> (2::int) ^ (7 * n) = 2 * 2 ^ (7 * n - 1)"
  by (cases n) (simp_all add: power_add)

lemma Varint_PutVarint:
  assumes ne: "buf \<noteq> []" and len: "length buf \<le> 9"
    and lo: "- (2 ^ (7 * length buf - 1)) \<le> v" and hi: "v < 2 ^ (7 * length buf - 1)"
  shows "\<exists>enc. PutVarint buf v = Some enc \<and> length enc = length buf \<and> fst (Varint enc) = v"
proof -
  let ?n = "length buf"
  have n: "0 < ?n" using ne by simp
  have "(2::int) ^ (7 * ?n - 1) \<le> 2 ^ 63"
    using len by (intro power_increasing) auto
  then have v63: "- (2 ^ 63) \<le> v" "v < 2 ^ 63" using lo hi by auto
  let ?w = "word_of_int v :: 64 word"
  let ?ux = "if v < 0 then NOT (push_bit 1 ?w) else push_bit 1 ?w"
  have ux_int: "int (unat ?ux) < 2 ^ (7 * ?n)"
  proof (cases "v < 0")
    case True
    then show ?thesis using zigzag_neg(4)[OF True v63(1)] lo pow7_split[OF n] by simp
  next
    case False
    then show ?thesis using zigzag_nonneg(4)[of v] v63 hi pow7_split[OF n] by simp
  qed
  then have "unat ?ux < 2 ^ (7 * ?n)"
    by (metis of_nat_less_iff of_nat_numeral of_nat_power)
  from PutUvarint_Some[OF ne this] obtain enc where enc: "PutUvarint buf ?ux = Some enc" by blast
  have put: "PutVarint buf v = Some enc" using enc by (auto simp: PutVarint_def Let_def)
  have dec: "fst (Uvarint enc) = ?ux"
    using Uvarint_loop_PutUvarint[OF enc, of 0 0 0] len by (simp add: Uvarint_def)
  have "fst (Varint enc) = v"
  proof (cases "v < 0")
    case True
    show ?thesis
      using dec zigzag_neg(1,2,3)[OF True v63(1)] True
      by (simp add: Varint_def Let_def split_beta)
  next
    case False
    then have v0: "0 \<le> v" by simp
    show ?thesis
      using dec zigzag_nonneg(1,2,3)[OF v0 v63(2)] False
      by (simp add: Varint_def Let_def split_beta)
  qed
  with put PutUvarint_length[OF enc] show ?thesis by simp
qed

section \<open>Formatting and parsing base-36 numbers\<close>

lemma digits_entries:
  "list_all (\<lambda>d. digit_value (digits ! d) = Some d \<and> digits ! d \<noteq> 0x2d \<and> digits ! d \<noteq> 0x2b)
     [0..<36]"
  by code_simp

lemma digit_value_digits: "d < 36 \<Longrightarrow> digit_value (digits ! d) = Some d"
  using digits_entries by (simp add: list_all_iff)

lemma digits_not_sign: "d < 36 \<Longrightarrow> digits ! d \<noteq> 0x2d \<and> digits ! d \<noteq> 0x2b"
  using digits_entries by (simp add: list_all_iff)

lemma formatBits_small: "u < 36 \<Longrightarrow> formatBits u = [digits ! u]"
  by (subst formatBits.simps) (simp add: base_def)

lemma formatBits_step:
  "36 \<le> u \<Longrightarrow> formatBits u = formatBits (u div 36) @ [digits ! (u mod 36)]"
  by (subst formatBits.simps) (simp add: base_def minus_div_mult_eq_mod)

lemma formatBits_length: "0 < n \<Longrightarrow> u < 36 ^ n \<Longrightarrow> length (formatBits u) \<le> n"
proof (induction u arbitrary: n rule: formatBits.induct)
  case (1 u)
  show ?case
  proof (cases "36 \<le> u")
    case False
    then show ?thesis using "1.prems" by (simp add: formatBits_small)
  next
    case True
    then obtain m where n: "n = Suc m" "0 < m"
      using "1.prems" by (cases n; cases "n - 1") auto
    have "u div 36 < 36 ^ m" using "1.prems"(2) n
      by (simp add: less_mult_imp_div_less mult.commute)
    from "1.IH"[unfolded base_def, OF True \<open>0 < m\<close> this]
    have "length (formatBits (u div 36)) \<le> m" .
    then show ?thesis using True n by (simp add: formatBits_step)
  qed
qed

lemma formatBits_nonempty: "formatBits u \<noteq> []"
  by (subst formatBits.simps) simp

lemma ParseUint_loop_append:
  "ParseUint_loop (xs @ ys) n =
     (case ParseUint_loop xs n of Inl e \<Rightarrow> Inl e | Inr m \<Rightarrow> ParseUint_loop ys m)"
  by (induction xs arbitrary: n) (auto split: option.splits)

lemma ParseUint_loop_digit:
  assumes "d < 36" "n * 36 + d \<le> maxUint64"
  shows "ParseUint_loop [digits ! d] n = Inr (n * 36 + d)"
proof -
  have "n \<le> maxUint64 div 36" using assms(2) by (simp add: maxUint64_def) 
  then show ?thesis
    using assms by (simp add: digit_value_digits base_def)
qed

lemma ParseUint_loop_formatBits:
  "n * 36 ^ length (formatBits u) + u \<le> maxUint64 \<Longrightarrow>
   ParseUint_loop (formatBits u) n = Inr (n * 36 ^ length (formatBits u) + u)"
proof (induction u arbitrary: n rule: formatBits.induct)
  case (1 u)
  show ?case
  proof (cases "36 \<le> u")
    case False
    then have u: "u < 36" by simp
    have "n * 36 + u \<le> maxUint64" using "1.prems" u by (simp add: formatBits_small)
    from ParseUint_loop_digit[OF u this] show ?thesis
      by (simp only: formatBits_small[OF u] list.size power_one_right One_nat_def[symmetric] add_0)
  next
    case True
    let ?q = "u div 36" and ?r = "u mod 36"
    let ?m = "n * 36 ^ length (formatBits ?q) + ?q"
    have u: "u = ?q * 36 + ?r" by simp
    have val: "n * 36 ^ length (formatBits u) + u = ?m * 36 + ?r"
      using True by (simp add: formatBits_step algebra_simps)
    have bound: "?m * 36 + ?r \<le> maxUint64" using "1.prems" unfolding val .
    from bound have le: "?m \<le> maxUint64" by simp
    have "ParseUint_loop (formatBits ?q) n = Inr ?m"
      using "1.IH"[unfolded base_def, OF True, of n] le by simp
    moreover have "ParseUint_loop [digits ! ?r] ?m = Inr (?m * 36 + ?r)"
      using bound by (intro ParseUint_loop_digit) auto
    ultimately show ?thesis
      unfolding val formatBits_step[OF True] ParseUint_loop_append by simp
  qed
qed

lemma ParseUint_loop_zeros: "ParseUint_loop (replicate k 0x30 @ xs) 0 = ParseUint_loop xs 0"
  by (induction k) (simp_all add: digit_value_def base_def maxUint64_def)

lemma hd_formatBits: "\<exists>d<36. hd (formatBits u) = digits ! d"
proof (induction u rule: formatBits.induct)
  case (1 u)
  show ?case
  proof (cases "36 \<le> u")
    case False then show ?thesis by (auto simp: formatBits_small not_le intro!: exI[of _ u])
  next
    case True
    then show ?thesis using "1.IH" formatBits_nonempty[of "u div 36"]
      unfolding base_def by (simp add: formatBits_step)
  qed
qed

lemma leftPad_length: "length s \<le> n \<Longrightarrow> length (leftPad s n) = n"
  by (simp add: leftPad_def)

lemma leftPad_length_ge: "n \<le> length (leftPad s n)"
  by (simp add: leftPad_def)

lemma FormatInt_nonneg: "0 \<le> v \<Longrightarrow> FormatInt v = formatBits (nat v)"
  by (simp add: FormatInt_def)

lemma FormatInt_length:
  assumes "0 \<le> v" "v < 36 ^ n" "0 < n"
  shows "length (FormatInt v) \<le> n"
proof -
  have "nat v < 36 ^ n" using assms(1,2) by (simp add: nat_less_iff)
  from formatBits_length[OF assms(3) this] show ?thesis using assms(1) by (simp add: FormatInt_nonneg)
qed

lemma formatBits_length_gt:
  "0 < n \<Longrightarrow> 36 ^ n \<le> u \<Longrightarrow> n < length (formatBits u)"
proof (induction u arbitrary: n rule: formatBits.induct)
  case (1 u)
  have "(36::nat) ^ 1 \<le> 36 ^ n" using "1.prems"(1) by (intro power_increasing) auto
  then have big: "36 \<le> u" using "1.prems"(2) by simp
  show ?case
  proof (cases "n = 1")
    case True
    then show ?thesis using big formatBits_nonempty[of "u div 36"]
      by (simp add: formatBits_step)
  next
    case False
    then obtain m where n: "n = Suc m" "0 < m" using "1.prems"(1) by (cases n) auto
    have "36 ^ m \<le> u div 36"
      using "1.prems"(2) n by (simp add: less_eq_div_iff_mult_less_eq mult.commute)
    from "1.IH"[unfolded base_def, OF big \<open>0 < m\<close> this]
    show ?thesis using big n by (simp add: formatBits_step)
  qed
qed

lemma formatBits_length_iff:
  "0 < n \<Longrightarrow> length (formatBits u) \<le> n \<longleftrightarrow> u < 36 ^ n"
  using formatBits_length[of n u] formatBits_length_gt[of n u] by (meson not_le)

text \<open>The values whose base-36 text, sign included, has at most \<open>n\<close> characters.\<close>

lemma FormatInt_fits_iff:
  assumes "1 < n"
  shows "length (FormatInt v) \<le> n \<longleftrightarrow> - (36 ^ (n - 1)) < v \<and> v < 36 ^ n"
proof (cases "v < 0")
  case False
  then have "length (FormatInt v) \<le> n \<longleftrightarrow> nat v < 36 ^ n"
    using assms by (simp add: FormatInt_def formatBits_length_iff)
  also have "\<dots> \<longleftrightarrow> v < 36 ^ n" using False by (simp add: nat_less_iff)
  finally have a: "length (FormatInt v) \<le> n \<longleftrightarrow> v < 36 ^ n" .
  have p: "0 < (36::int) ^ (n - 1)" by simp
  have "- (36 ^ (n - 1)) < v" using False p by linarith
  with a show ?thesis by simp
next
  case True
  have "length (FormatInt v) \<le> n \<longleftrightarrow> length (formatBits (nat (- v))) \<le> n - 1"
    using True assms by (auto simp: FormatInt_def)
  also have "\<dots> \<longleftrightarrow> nat (- v) < 36 ^ (n - 1)"
    using assms by (intro formatBits_length_iff) simp
  also have "\<dots> \<longleftrightarrow> - (36 ^ (n - 1)) < v" using True by (auto simp: nat_less_iff)
  finally have a: "length (FormatInt v) \<le> n \<longleftrightarrow> - (36 ^ (n - 1)) < v" .
  have p: "0 < (36::int) ^ n" by simp
  have "v < 36 ^ n" using True p by linarith
  with a show ?thesis by simp
qed

lemma ParseInt_leftPad_FormatInt:
  assumes v: "0 \<le> v" "v < 36 ^ n" and n: "0 < n" "n \<le> 12"
  shows "ParseInt (leftPad (FormatInt v) n) = Inr v"
proof -
  let ?u = "nat v"
  let ?ds = "formatBits ?u"
  let ?s = "leftPad (FormatInt v) n"
  have s: "?s = replicate (n - length ?ds) 0x30 @ ?ds"
    using v by (simp add: leftPad_def FormatInt_nonneg)
  have "(36::int) ^ n \<le> 36 ^ 12" using n by (intro power_increasing) auto
  then have vb: "v < 2 ^ 63" using v by simp
  then have ub: "?u < 2 ^ 63" using v by (simp add: nat_less_iff)
  have ne: "?s \<noteq> []" using formatBits_nonempty[of ?u] by (simp add: s)
  obtain d where d: "d < 36" "hd ?ds = digits ! d" using hd_formatBits[of ?u] by blast
  have "hd ?s = 0x30 \<or> hd ?s = hd ?ds"
    unfolding s by (cases "n - length ?ds") (simp_all add: formatBits_nonempty)
  then have hd: "hd ?s \<noteq> 0x2d" "hd ?s \<noteq> 0x2b"
    using digits_not_sign[OF d(1)] d(2) by auto
  have "ParseUint_loop ?s 0 = ParseUint_loop ?ds 0"
    unfolding s by (rule ParseUint_loop_zeros)
  also have "\<dots> = Inr ?u"
    using ParseUint_loop_formatBits[of 0 ?u] ub by (simp add: maxUint64_def)
  finally have pu: "ParseUint ?s = Inr ?u" using ne by (simp add: ParseUint_def)
  show ?thesis
    using ne hd pu ub v by (simp add: ParseInt_def Let_def blockSize_def)
qed

section \<open>The fields of a GUID\<close>

lemma PutVarint_length: "PutVarint buf x = Some enc \<Longrightarrow> length enc = length buf"
  by (auto simp: PutVarint_def Let_def dest: PutUvarint_length)

lemma GUID_fields:
  assumes "is_GUID g"
  obtains p t f i d r where "g = p @ t @ f @ i @ d @ r"
    "length p = 2" "length t = 8" "length f = 4" "length i = 4" "length d = 4" "length r = 4"
proof
  let ?p = "take 2 g" and ?t = "take 8 (drop 2 g)" and ?f = "take 4 (drop 10 g)"
  let ?i = "take 4 (drop 14 g)" and ?d = "take 4 (drop 18 g)" and ?r = "drop 22 g"
  have len: "length g = 26" using assms by (simp add: is_GUID_def byteSize_def)
  have "?d @ ?r = drop 18 g" using append_take_drop_id[of 4 "drop 18 g"] by simp
  moreover have "?i @ drop 18 g = drop 14 g" using append_take_drop_id[of 4 "drop 14 g"] by simp
  moreover have "?f @ drop 14 g = drop 10 g" using append_take_drop_id[of 4 "drop 10 g"] by simp
  moreover have "?t @ drop 10 g = drop 2 g" using append_take_drop_id[of 8 "drop 2 g"] by simp
  moreover have "?p @ drop 2 g = g" by simp
  ultimately show "g = ?p @ ?t @ ?f @ ?i @ ?d @ ?r" by simp
  show "length ?p = 2" "length ?t = 8" "length ?f = 4" "length ?i = 4" "length ?d = 4" "length ?r = 4"
    using len by simp_all
qed

lemma fields_is_GUID:
  "length p = 2 \<Longrightarrow> length t = 8 \<Longrightarrow> length f = 4 \<Longrightarrow> length i = 4 \<Longrightarrow> length d = 4 \<Longrightarrow>
   length r = 4 \<Longrightarrow> is_GUID (p @ t @ f @ i @ d @ r)"
  by (simp add: is_GUID_def byteSize_def)

lemma subslice_fields:
  assumes "length p = 2" "length t = 8" "length f = 4" "length i = 4" "length d = 4" "length r = 4"
  shows "subslice (p @ t @ f @ i @ d @ r) 0 2 = p"
    and "subslice (p @ t @ f @ i @ d @ r) tsStart tsEnd = t"
    and "subslice (p @ t @ f @ i @ d @ r) fpStart fpEnd = f"
    and "subslice (p @ t @ f @ i @ d @ r) icStart icEnd = i"
    and "subslice (p @ t @ f @ i @ d @ r) dcStart dcEnd = d"
    and "subslice (p @ t @ f @ i @ d @ r) rdStart rdEnd = r"
  using assms by (simp_all add: subslice_def layout_defs)

lemma PutVarint_at_fields:
  assumes "length p = 2" "length t = 8" "length f = 4" "length i = 4" "length d = 4" "length r = 4"
  shows "PutVarint_at (p @ t @ f @ i @ d @ r) tsStart tsEnd x =
           map_option (\<lambda>t'. p @ t' @ f @ i @ d @ r) (PutVarint t x)"
    and "PutVarint_at (p @ t @ f @ i @ d @ r) fpStart fpEnd x =
           map_option (\<lambda>f'. p @ t @ f' @ i @ d @ r) (PutVarint f x)"
    and "PutVarint_at (p @ t @ f @ i @ d @ r) icStart icEnd x =
           map_option (\<lambda>i'. p @ t @ f @ i' @ d @ r) (PutVarint i x)"
    and "PutVarint_at (p @ t @ f @ i @ d @ r) dcStart dcEnd x =
           map_option (\<lambda>d'. p @ t @ f @ i @ d' @ r) (PutVarint d x)"
    and "PutVarint_at (p @ t @ f @ i @ d @ r) rdStart rdEnd x =
           map_option (\<lambda>r'. p @ t @ f @ i @ d @ r') (PutVarint r x)"
  using assms by (simp_all add: PutVarint_at_def subslice_def layout_defs split: option.splits)

lemma Milliseconds_bound:
  assumes "- (2 ^ 63) \<le> n" "n < 2 ^ 63"
  shows "- (2 ^ 55) \<le> Milliseconds n" "Milliseconds n < 2 ^ 55"
proof -
  have "\<bar>n\<bar> \<le> 2 ^ 63" using assms by auto
  then have "\<bar>n\<bar> div 1000000 \<le> 2 ^ 63 div 1000000" by (rule zdiv_mono1) simp
  then have b: "\<bar>n\<bar> div 1000000 < 2 ^ 55" by simp
  have nn: "0 \<le> \<bar>n\<bar> div 1000000" by (simp add: pos_imp_zdiv_nonneg_iff)
  show "- (2 ^ 55) \<le> Milliseconds n" "Milliseconds n < 2 ^ 55"
    using b nn unfolding Milliseconds_def by (cases "n < 0"; cases "n = 0"; simp)+
qed

lemma filter_guid_range: "0 \<le> filter_guid v" "filter_guid v < maxInt" "filter_guid v < 2 ^ 27"
  by (simp_all add: filter_guid_def maxInt_def)

lemma PutVarint_field4:
  assumes "length f = 4" "0 \<le> x" "x < 2 ^ 27"
  shows "\<exists>f'. PutVarint f x = Some f' \<and> length f' = 4 \<and> fst (Varint f') = x"
proof -
  have "f \<noteq> []" using assms(1) by auto
  from Varint_PutVarint[OF this, of x] assms show ?thesis by simp
qed

lemma PutVarint_field8:
  assumes "length t = 8" "- (2 ^ 55) \<le> x" "x < 2 ^ 55"
  shows "\<exists>t'. PutVarint t x = Some t' \<and> length t' = 8 \<and> fst (Varint t') = x"
proof -
  have "t \<noteq> []" using assms(1) by auto
  from Varint_PutVarint[OF this, of x] assms show ?thesis by simp
qed

lemma PutVarint_filter_guid:
  assumes "length f = 4"
  shows "\<exists>f'. PutVarint f (filter_guid v) = Some f' \<and> length f' = 4 \<and>
           fst (Varint f') = v mod maxInt"
  using PutVarint_field4[OF assms filter_guid_range(1) filter_guid_range(3), of v]
  by (simp add: filter_guid_def)

lemma int32_small: "0 \<le> x \<Longrightarrow> x < maxInt \<Longrightarrow> int32 x = x"
  by (simp add: int32_def maxInt_def signed_take_bit_int_eq_self)

lemma mod_maxInt_range: "0 \<le> v mod maxInt" "v mod maxInt < maxInt" "v mod maxInt < 36 ^ 4"
  by (simp_all add: maxInt_def)

lemma field_text_length:
  "0 \<le> x \<Longrightarrow> x < 36 ^ 4 \<Longrightarrow> length (leftPad (FormatInt x) fieldSize) = fieldSize"
  by (rule leftPad_length) (simp add: fieldSize_def FormatInt_length)

lemma filtered_text_length:
  "length (leftPad (FormatInt (v mod maxInt)) fieldSize) = fieldSize"
  by (rule field_text_length) (rule mod_maxInt_range)+

section \<open>The setters\<close>

text \<open>
  Claim C9. Every setter returns a GUID that differs from its receiver only inside the field
  it sets: \<^verbatim>\<open>SetTime\<close> writes only bytes 2-9, \<^verbatim>\<open>SetFingerprint\<close> only bytes 10-13,
  \<^verbatim>\<open>SetCounters\<close> only bytes 14-21 and \<^verbatim>\<open>SetRandom\<close> only bytes 22-25; every other
  byte, the prefix included, is the receiver's. Each setter returns (its write stays inside
  the field's slice, so there is no run-time panic). The receiver is a value: the setter
  works on its own copy of the array, which the embedding renders by returning a new list.
\<close>

theorem setters_frame:
  assumes g: "is_GUID g" and nanos: "- (2 ^ 63) \<le> unixNano" "unixNano < 2 ^ 63"
  shows "(\<exists>g'. SetTime g unixNano = Some g' \<and> is_GUID g' \<and>
            (\<forall>k<byteSize. \<not> (tsStart \<le> k \<and> k < tsEnd) \<longrightarrow> g' ! k = g ! k)) \<and>
         (\<exists>g'. SetFingerprint g v = Some g' \<and> is_GUID g' \<and>
            (\<forall>k<byteSize. \<not> (fpStart \<le> k \<and> k < fpEnd) \<longrightarrow> g' ! k = g ! k)) \<and>
         (\<exists>g'. SetCounters g incr decr = Some g' \<and> is_GUID g' \<and>
            (\<forall>k<byteSize. \<not> (icStart \<le> k \<and> k < dcEnd) \<longrightarrow> g' ! k = g ! k)) \<and>
         (\<exists>g'. SetRandom g v' = Some g' \<and> is_GUID g' \<and>
            (\<forall>k<byteSize. \<not> (rdStart \<le> k \<and> k < rdEnd) \<longrightarrow> g' ! k = g ! k))"
proof -
  from g obtain p t f i d r where
    gf: "g = p @ t @ f @ i @ d @ r" and
    len: "length p = 2" "length t = 8" "length f = 4" "length i = 4" "length d = 4" "length r = 4"
    by (rule GUID_fields)
  note put = PutVarint_at_fields[OF len]
  obtain t' where t': "PutVarint t (Milliseconds unixNano) = Some t'" "length t' = 8"
    using PutVarint_field8[OF len(2) Milliseconds_bound[OF nanos]] by blast
  obtain f' where f': "PutVarint f (filter_guid v) = Some f'" "length f' = 4"
    using PutVarint_filter_guid[OF len(3)] by blast
  obtain i' where i': "PutVarint i (filter_guid incr) = Some i'" "length i' = 4"
    using PutVarint_filter_guid[OF len(4)] by blast
  obtain d' where d': "PutVarint d (filter_guid decr) = Some d'" "length d' = 4"
    using PutVarint_filter_guid[OF len(5)] by blast
  obtain r' where r': "PutVarint r (filter_guid v') = Some r'" "length r' = 4"
    using PutVarint_filter_guid[OF len(6)] by blast
  have 1: "SetTime g unixNano = Some (p @ t' @ f @ i @ d @ r)"
    by (simp add: SetTime_def gf put t')
  have 2: "SetFingerprint g v = Some (p @ t @ f' @ i @ d @ r)"
    by (simp add: SetFingerprint_def gf put f')
  have 3: "SetCounters g incr decr = Some (p @ t @ f @ i' @ d' @ r)"
    using PutVarint_at_fields(4)[OF len(1,2,3) i'(2) len(5,6), of "filter_guid decr"]
    by (simp add: SetCounters_def gf put i' d')
  have 4: "SetRandom g v' = Some (p @ t @ f @ i @ d @ r')"
    by (simp add: SetRandom_def gf put r')
  show ?thesis
  proof (intro conjI)
    show "\<exists>g'. SetTime g unixNano = Some g' \<and> is_GUID g' \<and>
            (\<forall>k<byteSize. \<not> (tsStart \<le> k \<and> k < tsEnd) \<longrightarrow> g' ! k = g ! k)"
      unfolding 1 using len t' by (auto simp: gf nth_append layout_defs is_GUID_def)
    show "\<exists>g'. SetFingerprint g v = Some g' \<and> is_GUID g' \<and>
            (\<forall>k<byteSize. \<not> (fpStart \<le> k \<and> k < fpEnd) \<longrightarrow> g' ! k = g ! k)"
      unfolding 2 using len f' by (auto simp: gf nth_append layout_defs is_GUID_def)
    show "\<exists>g'. SetCounters g incr decr = Some g' \<and> is_GUID g' \<and>
            (\<forall>k<byteSize. \<not> (icStart \<le> k \<and> k < dcEnd) \<longrightarrow> g' ! k = g ! k)"
      unfolding 3 using len i' d' by (auto simp: gf nth_append layout_defs is_GUID_def)
    show "\<exists>g'. SetRandom g v' = Some g' \<and> is_GUID g' \<and>
            (\<forall>k<byteSize. \<not> (rdStart \<le> k \<and> k < rdEnd) \<longrightarrow> g' ! k = g ! k)"
      unfolding 4 using len r' by (auto simp: gf nth_append layout_defs is_GUID_def)
  qed
qed

theorem setters_frame_witness:
  "is_GUID example_GUID \<and> - (2 ^ 63) \<le> (1622222222222000000 :: int) \<and>
   (1622222222222000000 :: int) < 2 ^ 63 \<and>
   (\<exists>g'. SetTime example_GUID 1622222222222000000 = Some g' \<and> is_GUID g' \<and>
      (\<forall>k<byteSize. \<not> (tsStart \<le> k \<and> k < tsEnd) \<longrightarrow> g' ! k = example_GUID ! k)) \<and>
   (\<exists>g'. SetFingerprint example_GUID 2222 = Some g' \<and> is_GUID g' \<and>
      (\<forall>k<byteSize. \<not> (fpStart \<le> k \<and> k < fpEnd) \<longrightarrow> g' ! k = example_GUID ! k)) \<and>
   (\<exists>g'. SetCounters example_GUID 500 1000 = Some g' \<and> is_GUID g' \<and>
      (\<forall>k<byteSize. \<not> (icStart \<le> k \<and> k < dcEnd) \<longrightarrow> g' ! k = example_GUID ! k)) \<and>
   (\<exists>g'. SetRandom example_GUID 315530 = Some g' \<and> is_GUID g' \<and>
      (\<forall>k<byteSize. \<not> (rdStart \<le> k \<and> k < rdEnd) \<longrightarrow> g' ! k = example_GUID ! k))"
  using setters_frame[of example_GUID 1622222222222000000 2222 500 1000 315530]
    example_GUID_is_GUID
  by simp

text \<open>
  Claim C4. For every value \<open>v\<close> (negative, or at least 1,679,616, or in between),
  \<^verbatim>\<open>SetFingerprint\<close>, \<^verbatim>\<open>SetCounters\<close> and \<^verbatim>\<open>SetRandom\<close> store \<open>v\<close> reduced modulo
  1,679,616: the getter returns \<open>v mod 1679616\<close>, a value in \<open>[0, 1679616)\<close>, and the
  field's base-36 text in \<^verbatim>\<open>String\<close> has exactly 4 characters.
\<close>

theorem setters_filter:
  assumes g: "is_GUID g"
  shows "(\<exists>g'. SetFingerprint g v = Some g' \<and> Fingerprint g' = v mod maxInt \<and>
            0 \<le> Fingerprint g' \<and> Fingerprint g' < maxInt \<and> length (fpText g') = fieldSize) \<and>
         (\<exists>g'. SetCounters g incr decr = Some g' \<and>
            Counters g' = (incr mod maxInt, decr mod maxInt) \<and>
            0 \<le> fst (Counters g') \<and> fst (Counters g') < maxInt \<and>
            0 \<le> snd (Counters g') \<and> snd (Counters g') < maxInt \<and>
            length (icText g') = fieldSize \<and> length (dcText g') = fieldSize) \<and>
         (\<exists>g'. SetRandom g v' = Some g' \<and> Random g' = v' mod maxInt \<and>
            0 \<le> Random g' \<and> Random g' < maxInt \<and> length (rdText g') = fieldSize)"
proof -
  from g obtain p t f i d r where
    gf: "g = p @ t @ f @ i @ d @ r" and
    len: "length p = 2" "length t = 8" "length f = 4" "length i = 4" "length d = 4" "length r = 4"
    by (rule GUID_fields)
  note put = PutVarint_at_fields[OF len]
  obtain f' where f': "PutVarint f (filter_guid v) = Some f'" "length f' = 4"
      "fst (Varint f') = v mod maxInt"
    using PutVarint_filter_guid[OF len(3)] by blast
  obtain i' where i': "PutVarint i (filter_guid incr) = Some i'" "length i' = 4"
      "fst (Varint i') = incr mod maxInt"
    using PutVarint_filter_guid[OF len(4)] by blast
  obtain d' where d': "PutVarint d (filter_guid decr) = Some d'" "length d' = 4"
      "fst (Varint d') = decr mod maxInt"
    using PutVarint_filter_guid[OF len(5)] by blast
  obtain r' where r': "PutVarint r (filter_guid v') = Some r'" "length r' = 4"
      "fst (Varint r') = v' mod maxInt"
    using PutVarint_filter_guid[OF len(6)] by blast
  have 2: "SetFingerprint g v = Some (p @ t @ f' @ i @ d @ r)"
    by (simp add: SetFingerprint_def gf put f')
  have 3: "SetCounters g incr decr = Some (p @ t @ f @ i' @ d' @ r)"
    using PutVarint_at_fields(4)[OF len(1,2,3) i'(2) len(5,6), of "filter_guid decr"]
    by (simp add: SetCounters_def gf put i' d')
  have 4: "SetRandom g v' = Some (p @ t @ f @ i @ d @ r')"
    by (simp add: SetRandom_def gf put r')
  note rng = mod_maxInt_range int32_small[OF mod_maxInt_range(1,2)]
  show ?thesis
  proof (intro conjI)
    show "\<exists>g'. SetFingerprint g v = Some g' \<and> Fingerprint g' = v mod maxInt \<and>
            0 \<le> Fingerprint g' \<and> Fingerprint g' < maxInt \<and> length (fpText g') = fieldSize"
      unfolding 2
      by (simp add: Fingerprint_def fpText_def subslice_fields[OF len(1,2) f'(2) len(4,5,6)] f'(3)
          rng filtered_text_length)
    show "\<exists>g'. SetCounters g incr decr = Some g' \<and>
            Counters g' = (incr mod maxInt, decr mod maxInt) \<and>
            0 \<le> fst (Counters g') \<and> fst (Counters g') < maxInt \<and>
            0 \<le> snd (Counters g') \<and> snd (Counters g') < maxInt \<and>
            length (icText g') = fieldSize \<and> length (dcText g') = fieldSize"
      unfolding 3
      by (simp add: Counters_def icText_def dcText_def
          subslice_fields[OF len(1,2,3) i'(2) d'(2) len(6)] i'(3) d'(3) rng filtered_text_length)
    show "\<exists>g'. SetRandom g v' = Some g' \<and> Random g' = v' mod maxInt \<and>
            0 \<le> Random g' \<and> Random g' < maxInt \<and> length (rdText g') = fieldSize"
      unfolding 4
      by (simp add: Random_def rdText_def subslice_fields[OF len(1,2,3,4,5) r'(2)] r'(3)
          rng filtered_text_length)
  qed
qed

theorem setters_filter_witness:
  "is_GUID example_GUID \<and>
   (\<exists>g'. SetFingerprint example_GUID (- 1) = Some g' \<and> Fingerprint g' = 1679615 \<and>
      length (fpText g') = 4) \<and>
   (\<exists>g'. SetCounters example_GUID 1679616 (- 1679617) = Some g' \<and>
      Counters g' = (0, 1679615) \<and> length (icText g') = 4 \<and> length (dcText g') = 4) \<and>
   (\<exists>g'. SetRandom example_GUID 1679617 = Some g' \<and> Random g' = 1 \<and>
      length (rdText g') = 4)"
  using setters_filter[of example_GUID "- 1" 1679616 "- 1679617" 1679617]
    example_GUID_is_GUID
  by (auto simp: maxInt_def fieldSize_def)

section \<open>The text form\<close>

lemma String_fields:
  assumes "length p = 2" "length t = 8" "length f = 4" "length i = 4" "length d = 4" "length r = 4"
  shows "String (p @ t @ f @ i @ d @ r) =
     p @ leftPad (FormatInt (fst (Varint t))) 8 @ leftPad (FormatInt (fst (Varint f))) 4 @
     leftPad (FormatInt (fst (Varint i))) 4 @ leftPad (FormatInt (fst (Varint d))) 4 @
     leftPad (FormatInt (fst (Varint r))) 4"
  by (simp add: String_def tsText_def fpText_def icText_def dcText_def rdText_def
      subslice_fields[OF assms] fieldSize_def)

lemma String_length_ge: "is_GUID g \<Longrightarrow> 26 \<le> length (String g)"
proof -
  assume "is_GUID g"
  then obtain p t f i d r where
    gf: "g = p @ t @ f @ i @ d @ r" and
    len: "length p = 2" "length t = 8" "length f = 4" "length i = 4" "length d = 4" "length r = 4"
    by (rule GUID_fields)
  show ?thesis
    unfolding gf String_fields[OF len]
    using leftPad_length_ge[of 8 "FormatInt (fst (Varint t))"]
      leftPad_length_ge[of 4 "FormatInt (fst (Varint f))"]
      leftPad_length_ge[of 4 "FormatInt (fst (Varint i))"]
      leftPad_length_ge[of 4 "FormatInt (fst (Varint d))"]
      leftPad_length_ge[of 4 "FormatInt (fst (Varint r))"] len(1)
    by simp
qed

lemma String_WithPrefixBytes:
  assumes "is_GUID g"
  shows "String (WithPrefixBytes b1 b2 g) = [b1, b2] @ drop 2 (String g)"
proof -
  from assms obtain p t f i d r where
    gf: "g = p @ t @ f @ i @ d @ r" and
    len: "length p = 2" "length t = 8" "length f = 4" "length i = 4" "length d = 4" "length r = 4"
    by (rule GUID_fields)
  obtain a b where p: "p = [a, b]" using len(1)
    by (cases p; cases "tl p") auto
  have w: "WithPrefixBytes b1 b2 g = [b1, b2] @ t @ f @ i @ d @ r"
    by (simp add: WithPrefixBytes_def gf p)
  have l2: "length [b1, b2] = 2" by simp
  have "String g = p @ drop 2 (String g)"
    unfolding gf String_fields[OF len] using len(1) by simp
  have s1: "String (WithPrefixBytes b1 b2 g) = [b1, b2] @ drop 2 (String ([b1, b2] @ t @ f @ i @ d @ r))"
    unfolding w String_fields[OF l2 len(2-)] by simp
  have s2: "drop 2 (String ([b1, b2] @ t @ f @ i @ d @ r)) = drop 2 (String (p @ t @ f @ i @ d @ r))"
    unfolding String_fields[OF l2 len(2-)] String_fields[OF len] using len(1) by simp
  show ?thesis using s1 s2 by (simp add: gf)
qed

lemma WithPrefixBytes_is_GUID: "is_GUID g \<Longrightarrow> is_GUID (WithPrefixBytes b1 b2 g)"
  by (simp add: is_GUID_def WithPrefixBytes_def)

lemma canonicalI:
  assumes "g = p @ t @ f @ i @ d @ r" "length p = 2"
    "clean_field 8 (36 ^ 8) t" "clean_field 4 maxInt f" "clean_field 4 maxInt i"
    "clean_field 4 maxInt d" "clean_field 4 maxInt r"
    "TimeField \<notin> S \<longrightarrow> t = replicate 8 0"
    "FingerprintField \<notin> S \<longrightarrow> f = replicate 4 0"
    "CountersField \<notin> S \<longrightarrow> i = replicate 4 0 \<and> d = replicate 4 0"
    "RandomField \<notin> S \<longrightarrow> r = replicate 4 0"
  shows "canonical S g"
  unfolding canonical_def using assms by blast

lemma canonicalE:
  assumes "canonical S g"
  obtains p t f i d r where "g = p @ t @ f @ i @ d @ r" "length p = 2"
    "clean_field 8 (36 ^ 8) t" "clean_field 4 maxInt f" "clean_field 4 maxInt i"
    "clean_field 4 maxInt d" "clean_field 4 maxInt r"
    "TimeField \<notin> S \<longrightarrow> t = replicate 8 0"
    "FingerprintField \<notin> S \<longrightarrow> f = replicate 4 0"
    "CountersField \<notin> S \<longrightarrow> i = replicate 4 0 \<and> d = replicate 4 0"
    "RandomField \<notin> S \<longrightarrow> r = replicate 4 0"
  using assms unfolding canonical_def by blast

lemma clean_field_length: "clean_field n b enc \<Longrightarrow> length enc = n"
  by (auto simp: clean_field_def dest: PutVarint_length)

lemma PutVarint_zero: "0 < n \<Longrightarrow> PutVarint (replicate n 0) 0 = Some (replicate n 0)"
  by (cases n) (simp_all add: PutVarint_def)

lemma clean_field_zero: "0 < n \<Longrightarrow> 0 < b \<Longrightarrow> clean_field n b (replicate n 0)"
  unfolding clean_field_def using PutVarint_zero[of n] by (intro exI[of _ 0]) simp

lemma replicate_numeral_Cons: "replicate (numeral k) x = x # replicate (pred_numeral k) x"
  by (simp add: numeral_eq_Suc)

lemma GUID_zero_fields:
  "GUID_zero = [0, 0] @ replicate 8 0 @ replicate 4 0 @ replicate 4 0 @ replicate 4 0 @ replicate 4 0"
  by (simp add: GUID_zero_def byteSize_def replicate_numeral_Cons)

lemma canonical_zero: "canonical {} GUID_zero"
  unfolding canonical_def
  apply (rule exI[of _ "[0, 0]"], rule exI[of _ "replicate 8 0"])
  apply (rule exI[of _ "replicate 4 0"], rule exI[of _ "replicate 4 0"])
  apply (rule exI[of _ "replicate 4 0"], rule exI[of _ "replicate 4 0"])
  apply (simp only: GUID_zero_fields[symmetric])
  apply (simp add: clean_field_zero maxInt_def)
  done

lemma filter_guid_id: "0 \<le> v \<Longrightarrow> v < maxInt \<Longrightarrow> filter_guid v = v"
  by (simp add: filter_guid_def)

lemma built_canonical: "built S g \<Longrightarrow> canonical S g"
proof (induction rule: built.induct)
  case built_zero
  show ?case by (rule canonical_zero)
next
  case (built_prefix S g b1 b2)
  then have "canonical S g" by simp
  then obtain p t f i d r where
    c: "g = p @ t @ f @ i @ d @ r" "length p = 2"
      "clean_field 8 (36 ^ 8) t" "clean_field 4 maxInt f" "clean_field 4 maxInt i"
      "clean_field 4 maxInt d" "clean_field 4 maxInt r"
      "TimeField \<notin> S \<longrightarrow> t = replicate 8 0"
      "FingerprintField \<notin> S \<longrightarrow> f = replicate 4 0"
      "CountersField \<notin> S \<longrightarrow> i = replicate 4 0 \<and> d = replicate 4 0"
      "RandomField \<notin> S \<longrightarrow> r = replicate 4 0"
    by (rule canonicalE)
  obtain a b where p: "p = [a, b]" using c(2) by (cases p; cases "tl p") auto
  have "WithPrefixBytes b1 b2 g = [b1, b2] @ t @ f @ i @ d @ r"
    by (simp add: WithPrefixBytes_def c(1) p)
  then show ?case using c(3-) by (intro canonicalI[of _ "[b1, b2]" t f i d r]) auto
next
  case (built_time S g unixNano g')
  then have "canonical S g" by simp
  then obtain p t f i d r where
    c: "g = p @ t @ f @ i @ d @ r" "length p = 2"
      "clean_field 8 (36 ^ 8) t" "clean_field 4 maxInt f" "clean_field 4 maxInt i"
      "clean_field 4 maxInt d" "clean_field 4 maxInt r"
      "TimeField \<notin> S \<longrightarrow> t = replicate 8 0"
      "FingerprintField \<notin> S \<longrightarrow> f = replicate 4 0"
      "CountersField \<notin> S \<longrightarrow> i = replicate 4 0 \<and> d = replicate 4 0"
      "RandomField \<notin> S \<longrightarrow> r = replicate 4 0"
    by (rule canonicalE)
  note len = c(2) c(3-7)[THEN clean_field_length]
  have t0: "t = replicate 8 0" using c(8) built_time.hyps by simp
  have st: "SetTime g unixNano =
      map_option (\<lambda>t'. p @ t' @ f @ i @ d @ r) (PutVarint t (Milliseconds unixNano))"
    by (simp add: SetTime_def c(1) PutVarint_at_fields(1)[OF len])
  from built_time.hyps(5)[unfolded st] obtain t' where
    t': "PutVarint (replicate 8 0) (Milliseconds unixNano) = Some t'" "g' = p @ t' @ f @ i @ d @ r"
    unfolding t0 by auto
  have "clean_field 8 (36 ^ 8) t'"
    unfolding clean_field_def using t'(1) built_time.hyps(3,4) by blast
  then show ?case using c t'(2) 
    by (intro canonicalI[of _ p t' f i d r]) auto
next
  case (built_fingerprint S g v g')
  then have "canonical S g" by simp
  then obtain p t f i d r where
    c: "g = p @ t @ f @ i @ d @ r" "length p = 2"
      "clean_field 8 (36 ^ 8) t" "clean_field 4 maxInt f" "clean_field 4 maxInt i"
      "clean_field 4 maxInt d" "clean_field 4 maxInt r"
      "TimeField \<notin> S \<longrightarrow> t = replicate 8 0"
      "FingerprintField \<notin> S \<longrightarrow> f = replicate 4 0"
      "CountersField \<notin> S \<longrightarrow> i = replicate 4 0 \<and> d = replicate 4 0"
      "RandomField \<notin> S \<longrightarrow> r = replicate 4 0"
    by (rule canonicalE)
  note len = c(2) c(3-7)[THEN clean_field_length]
  have f0: "f = replicate 4 0" using c(9) built_fingerprint.hyps by simp
  have st: "SetFingerprint g v = map_option (\<lambda>f'. p @ t @ f' @ i @ d @ r) (PutVarint f v)"
    by (simp add: SetFingerprint_def c(1) PutVarint_at_fields(2)[OF len]
      filter_guid_id[OF built_fingerprint.hyps(3,4)])
  from built_fingerprint.hyps(5)[unfolded st] obtain f' where
    f': "PutVarint (replicate 4 0) v = Some f'" "g' = p @ t @ f' @ i @ d @ r"
    unfolding f0 by auto
  have "clean_field 4 maxInt f'"
    unfolding clean_field_def using f'(1) built_fingerprint.hyps(3,4) by blast
  then show ?case using c f'(2)
    by (intro canonicalI[of _ p t f' i d r]) auto
next
  case (built_counters S g incr decr g')
  then have "canonical S g" by simp
  then obtain p t f i d r where
    c: "g = p @ t @ f @ i @ d @ r" "length p = 2"
      "clean_field 8 (36 ^ 8) t" "clean_field 4 maxInt f" "clean_field 4 maxInt i"
      "clean_field 4 maxInt d" "clean_field 4 maxInt r"
      "TimeField \<notin> S \<longrightarrow> t = replicate 8 0"
      "FingerprintField \<notin> S \<longrightarrow> f = replicate 4 0"
      "CountersField \<notin> S \<longrightarrow> i = replicate 4 0 \<and> d = replicate 4 0"
      "RandomField \<notin> S \<longrightarrow> r = replicate 4 0"
    by (rule canonicalE)
  note len = c(2) c(3-7)[THEN clean_field_length]
  have i0: "i = replicate 4 0" and d0: "d = replicate 4 0"
    using c(10) built_counters.hyps by simp_all
  have st: "SetCounters g incr decr =
      (case PutVarint i incr of None \<Rightarrow> None
       | Some i' \<Rightarrow> PutVarint_at (p @ t @ f @ i' @ d @ r) dcStart dcEnd decr)"
    by (simp add: SetCounters_def c(1) PutVarint_at_fields(3)[OF len]
      filter_guid_id[OF built_counters.hyps(3,4)] filter_guid_id[OF built_counters.hyps(5,6)]
      split: option.splits)
  from built_counters.hyps(7)[unfolded st] obtain i' where
    i': "PutVarint (replicate 4 0) incr = Some i'"
      "PutVarint_at (p @ t @ f @ i' @ d @ r) dcStart dcEnd decr = Some g'"
    unfolding i0 by (auto split: option.splits)
  have li': "length i' = 4" using PutVarint_length[OF i'(1)] by simp
  from i'(2)[unfolded PutVarint_at_fields(4)[OF len(1,2,3) li' len(5,6)]] obtain d' where
    d': "PutVarint (replicate 4 0) decr = Some d'" "g' = p @ t @ f @ i' @ d' @ r"
    unfolding d0 by auto
  have "clean_field 4 maxInt i'" "clean_field 4 maxInt d'"
    unfolding clean_field_def using i'(1) d'(1) built_counters.hyps(3-6) by blast+
  then show ?case using c d'(2)
    by (intro canonicalI[of _ p t f i' d' r]) auto
next
  case (built_random S g v g')
  then have "canonical S g" by simp
  then obtain p t f i d r where
    c: "g = p @ t @ f @ i @ d @ r" "length p = 2"
      "clean_field 8 (36 ^ 8) t" "clean_field 4 maxInt f" "clean_field 4 maxInt i"
      "clean_field 4 maxInt d" "clean_field 4 maxInt r"
      "TimeField \<notin> S \<longrightarrow> t = replicate 8 0"
      "FingerprintField \<notin> S \<longrightarrow> f = replicate 4 0"
      "CountersField \<notin> S \<longrightarrow> i = replicate 4 0 \<and> d = replicate 4 0"
      "RandomField \<notin> S \<longrightarrow> r = replicate 4 0"
    by (rule canonicalE)
  note len = c(2) c(3-7)[THEN clean_field_length]
  have r0: "r = replicate 4 0" using c(11) built_random.hyps by simp
  have st: "SetRandom g v = map_option (\<lambda>r'. p @ t @ f @ i @ d @ r') (PutVarint r v)"
    by (simp add: SetRandom_def c(1) PutVarint_at_fields(5)[OF len]
      filter_guid_id[OF built_random.hyps(3,4)])
  from built_random.hyps(5)[unfolded st] obtain r' where
    r': "PutVarint (replicate 4 0) v = Some r'" "g' = p @ t @ f @ i @ d @ r'"
    unfolding r0 by auto
  have "clean_field 4 maxInt r'"
    unfolding clean_field_def using r'(1) built_random.hyps(3,4) by blast
  then show ?case using c r'(2)
    by (intro canonicalI[of _ p t f i d r']) auto
qed

lemma clean_field_decode:
  assumes "clean_field n b enc" "0 < n" "n \<le> 9" "b \<le> 2 ^ (7 * n - 1)"
  obtains v where "0 \<le> v" "v < b" "PutVarint (replicate n 0) v = Some enc" "fst (Varint enc) = v"
proof -
  from assms(1) obtain v where v: "0 \<le> v" "v < b" "PutVarint (replicate n 0) v = Some enc"
    unfolding clean_field_def by blast
  have "replicate n (0::byte) \<noteq> []" using assms(2) by simp
  from Varint_PutVarint[OF this, of v] v assms(3,4)
  have "fst (Varint enc) = v" by auto
  with v that show thesis by blast
qed

lemma ms_roundtrip:
  assumes "0 \<le> ms" "ms < 36 ^ 8"
  shows "Milliseconds (int64 (ms * 1000000)) = ms"
proof -
  have "ms * 1000000 < 2 ^ 63" using assms by simp
  moreover have "- (2 ^ 63) \<le> ms * 1000000" using assms by simp
  ultimately have "int64 (ms * 1000000) = ms * 1000000"
    by (simp add: int64_def signed_take_bit_int_eq_self)
  then show ?thesis using assms by (cases "ms = 0") (simp_all add: Milliseconds_def)
qed

lemma Parse_prefix:
  assumes "length p = 2"
  shows "(GUID_zero[0 := (p @ xs) ! 0])[1 := (p @ xs) ! 1] =
         p @ replicate 8 0 @ replicate 4 0 @ replicate 4 0 @ replicate 4 0 @ replicate 4 0"
proof -
  obtain a b where p: "p = [a, b]" using assms by (cases p; cases "tl p") auto
  show ?thesis by (simp add: p GUID_zero_fields)
qed

lemma text8:
  assumes "0 \<le> v" "v < 36 ^ 8"
  shows "length (leftPad (FormatInt v) 8) = 8" "ParseInt (leftPad (FormatInt v) 8) = Inr v"
  using assms FormatInt_length[of v 8] ParseInt_leftPad_FormatInt[of v 8]
  by (simp_all add: leftPad_length)

lemma text4:
  assumes "0 \<le> v" "v < maxInt"
  shows "length (leftPad (FormatInt v) 4) = 4" "ParseInt (leftPad (FormatInt v) 4) = Inr v"
  using assms FormatInt_length[of v 4] ParseInt_leftPad_FormatInt[of v 4]
  by (simp_all add: leftPad_length maxInt_def)

lemma canonical_roundtrip:
  assumes "canonical S g"
  shows "Parse (String g) = Some (g, None)"
proof -
  from assms obtain p t f i d r where
    c: "g = p @ t @ f @ i @ d @ r" "length p = 2"
      "clean_field 8 (36 ^ 8) t" "clean_field 4 maxInt f" "clean_field 4 maxInt i"
      "clean_field 4 maxInt d" "clean_field 4 maxInt r"
    by (rule canonicalE)
  note len = c(2) c(3-7)[THEN clean_field_length]
  obtain ms where ms: "0 \<le> ms" "ms < 36 ^ 8" "PutVarint (replicate 8 0) ms = Some t"
      "fst (Varint t) = ms"
    using c(3) by (rule clean_field_decode) simp_all
  obtain fp where fp: "0 \<le> fp" "fp < maxInt" "PutVarint (replicate 4 0) fp = Some f"
      "fst (Varint f) = fp"
    using c(4) by (rule clean_field_decode) (simp_all add: maxInt_def)
  obtain ic where ic: "0 \<le> ic" "ic < maxInt" "PutVarint (replicate 4 0) ic = Some i"
      "fst (Varint i) = ic"
    using c(5) by (rule clean_field_decode) (simp_all add: maxInt_def)
  obtain dc where dc: "0 \<le> dc" "dc < maxInt" "PutVarint (replicate 4 0) dc = Some d"
      "fst (Varint d) = dc"
    using c(6) by (rule clean_field_decode) (simp_all add: maxInt_def)
  obtain rd where rd: "0 \<le> rd" "rd < maxInt" "PutVarint (replicate 4 0) rd = Some r"
      "fst (Varint r) = rd"
    using c(7) by (rule clean_field_decode) (simp_all add: maxInt_def)
  let ?T = "leftPad (FormatInt ms) 8" and ?F = "leftPad (FormatInt fp) 4"
  let ?I = "leftPad (FormatInt ic) 4" and ?D = "leftPad (FormatInt dc) 4"
  let ?R = "leftPad (FormatInt rd) 4"
  note T = text8[OF ms(1,2)] and F = text4[OF fp(1,2)] and I = text4[OF ic(1,2)]
    and D = text4[OF dc(1,2)] and R = text4[OF rd(1,2)]
  have str: "String g = p @ ?T @ ?F @ ?I @ ?D @ ?R"
    unfolding c(1) String_fields[OF len] ms(4) fp(4) ic(4) dc(4) rd(4) ..
  note tl = len(1) T(1) F(1) I(1) D(1) R(1)
  note sl = subslice_fields[OF tl]
  have l26: "length (String g) = byteSize" unfolding str using tl by (simp add: byteSize_def)
  let ?z8 = "replicate 8 (0::byte)" and ?z4 = "replicate 4 (0::byte)"
  have zl: "length p = 2" "length ?z8 = 8" "length ?z4 = 4" using len(1) by simp_all
  have g0: "(GUID_zero[0 := String g ! 0])[1 := String g ! 1] = p @ ?z8 @ ?z4 @ ?z4 @ ?z4 @ ?z4"
    unfolding str by (rule Parse_prefix[OF len(1)])
  have s1: "SetTime (p @ ?z8 @ ?z4 @ ?z4 @ ?z4 @ ?z4) (int64 (ms * 1000000))
            = Some (p @ t @ ?z4 @ ?z4 @ ?z4 @ ?z4)"
    by (simp add: SetTime_def PutVarint_at_fields(1)[OF zl(1,2,3,3,3,3)] ms_roundtrip[OF ms(1,2)] ms(3))
  have s2: "SetFingerprint (p @ t @ ?z4 @ ?z4 @ ?z4 @ ?z4) (int32 fp)
            = Some (p @ t @ f @ ?z4 @ ?z4 @ ?z4)"
    by (simp add: SetFingerprint_def PutVarint_at_fields(2)[OF len(1,2) zl(3,3,3,3)]
        int32_small[OF fp(1,2)] filter_guid_id[OF fp(1,2)] fp(3))
  have s3a: "PutVarint_at (p @ t @ f @ ?z4 @ ?z4 @ ?z4) icStart icEnd (filter_guid (int32 ic))
            = Some (p @ t @ f @ i @ ?z4 @ ?z4)"
    by (simp add: PutVarint_at_fields(3)[OF len(1,2,3) zl(3,3,3)]
        int32_small[OF ic(1,2)] filter_guid_id[OF ic(1,2)] ic(3))
  have s3b: "PutVarint_at (p @ t @ f @ i @ ?z4 @ ?z4) dcStart dcEnd (filter_guid (int32 dc))
            = Some (p @ t @ f @ i @ d @ ?z4)"
    by (simp add: PutVarint_at_fields(4)[OF len(1,2,3,4) zl(3,3)]
        int32_small[OF dc(1,2)] filter_guid_id[OF dc(1,2)] dc(3))
  have s3: "SetCounters (p @ t @ f @ ?z4 @ ?z4 @ ?z4) (int32 ic) (int32 dc)
            = Some (p @ t @ f @ i @ d @ ?z4)"
    by (simp add: SetCounters_def s3a s3b)
  have s4: "SetRandom (p @ t @ f @ i @ d @ ?z4) (int32 rd) = Some (p @ t @ f @ i @ d @ r)"
    by (simp add: SetRandom_def PutVarint_at_fields(5)[OF len(1,2,3,4,5) zl(3)]
        int32_small[OF rd(1,2)] filter_guid_id[OF rd(1,2)] rd(3))
  show ?thesis
    unfolding Parse_def Let_def g0
    unfolding str sl
    using l26[unfolded str]
    by (simp add: T(2) F(2) I(2) D(2) R(2) s1 s2 s3 s4 c(1))
qed

section \<open>Evaluation on concrete inputs\<close>

text \<open>
  The values that guid\_test.go expects: the text of the example GUID, the GUID parsed from
  that text, and the GUID after each setter call of the test's build-up. The slug follows
  the layout of TestSlugs.
\<close>

lemmas eval_defs = SetFingerprint_def SetTime_def SetCounters_def SetRandom_def PutVarint_at_def
  PutVarint_def filter_guid_def subslice_def layout_defs maxInt_def Let_def Milliseconds_def
  Varint_def Uvarint_def MaxVarintLen64_def String_def tsText_def fpText_def icText_def
  dcText_def rdText_def leftPad_def FormatInt_def formatBits.simps digits_def int32_def int64_def
  Parse_def ParseInt_def ParseUint_def digit_value_def lower_def maxUint64_def
  WithPrefixBytes_def Slug_def

lemma not_128_le_1: "\<not> (128 :: 64 word) \<le> 1"
  by (simp add: word_le_nat_alt)

lemma GUID_zero_bytes:
  "GUID_zero = [0,0, 0,0,0,0,0,0,0,0, 0,0,0,0, 0,0,0,0, 0,0,0,0, 0,0,0,0]"
  by (simp add: GUID_zero_def byteSize_def replicate_numeral_Cons)

lemma String_example: "String example_GUID = example_text"
  by (simp add: eval_defs example_GUID_def example_text_def replicate_numeral_Cons)

lemma Parse_example: "Parse example_text = Some (example_GUID, None)"
  by (simp add: eval_defs example_GUID_def example_text_def GUID_zero_bytes)

lemma Slug_example:
  "Slug example_GUID =
     Some [0x38, 0x35, 0x6e, 0x32, 0x64, 0x77, 0x72, 0x73, 0x36, 0x72, 0x67, 0x71]"
  by (simp add: Slug_def String_example) (simp add: example_text_def)

lemma step_SetRandom: "SetRandom (WithPrefixBytes 0x78 0x6f GUID_zero) 315530 =
   Some [0x78, 0x6f, 0,0,0,0,0,0,0,0, 0,0,0,0, 0,0,0,0, 0,0,0,0, 0x94, 0xc2, 0x26, 0x0]"
  by (simp add: eval_defs GUID_zero_bytes)

lemma step_SetCounters: "SetCounters [0x78, 0x6f, 0,0,0,0,0,0,0,0, 0,0,0,0, 0,0,0,0, 0,0,0,0, 0x94, 0xc2, 0x26, 0x0] 500 1000
   = Some [0x78, 0x6f, 0,0,0,0,0,0,0,0, 0,0,0,0, 0xe8, 0x7, 0x0, 0x0, 0xd0, 0xf, 0x0, 0x0, 0x94, 0xc2, 0x26, 0x0]"
  by (simp add: eval_defs)

lemma step_SetTime: "SetTime [0x78, 0x6f, 0,0,0,0,0,0,0,0, 0,0,0,0, 0xe8, 0x7, 0x0, 0x0, 0xd0, 0xf, 0x0, 0x0, 0x94, 0xc2, 0x26, 0x0] 1622222222222000000
   = Some [0x78, 0x6f, 0x9c, 0xce, 0xd5, 0xbf, 0xb6, 0x5e, 0x0, 0x0, 0,0,0,0, 0xe8, 0x7, 0x0, 0x0, 0xd0, 0xf, 0x0, 0x0, 0x94, 0xc2, 0x26, 0x0]"
  by (simp add: eval_defs)

lemma step_SetFingerprint: "SetFingerprint [0x78, 0x6f, 0x9c, 0xce, 0xd5, 0xbf, 0xb6, 0x5e, 0x0, 0x0, 0,0,0,0, 0xe8, 0x7, 0x0, 0x0, 0xd0, 0xf, 0x0, 0x0, 0x94, 0xc2, 0x26, 0x0] 2222
   = Some example_GUID"
  by (simp add: eval_defs example_GUID_def)

text \<open>
  What the layout of the spec asks of the decoded values: the text of the timestamp has
  at most 8 characters and the text of every other value at most 4, that is, the
  timestamp lies strictly between \<open>- 36^7\<close> and \<open>36^8\<close> and every other value strictly
  between \<open>- 36^3\<close> and \<open>36^4 = 1679616\<close> (a minus sign takes one of the characters). This
  holds of any string with the layout, whatever function produced it.
\<close>

lemma spec_text_layout_ranges:
  assumes "spec_text_layout g s"
  shows "- (36 ^ 7) < fst (Varint (subslice g tsStart tsEnd)) \<and>
         fst (Varint (subslice g tsStart tsEnd)) < 36 ^ 8"
    and "- (36 ^ 3) < fst (Varint (subslice g fpStart fpEnd)) \<and>
         fst (Varint (subslice g fpStart fpEnd)) < 36 ^ 4"
    and "- (36 ^ 3) < fst (Varint (subslice g icStart icEnd)) \<and>
         fst (Varint (subslice g icStart icEnd)) < 36 ^ 4"
    and "- (36 ^ 3) < fst (Varint (subslice g dcStart dcEnd)) \<and>
         fst (Varint (subslice g dcStart dcEnd)) < 36 ^ 4"
    and "- (36 ^ 3) < fst (Varint (subslice g rdStart rdEnd)) \<and>
         fst (Varint (subslice g rdStart rdEnd)) < 36 ^ 4"
proof -
  have "length (FormatInt (fst (Varint (subslice g tsStart tsEnd)))) \<le> 8"
    and "length (FormatInt (fst (Varint (subslice g fpStart fpEnd)))) \<le> 4"
    and "length (FormatInt (fst (Varint (subslice g icStart icEnd)))) \<le> 4"
    and "length (FormatInt (fst (Varint (subslice g dcStart dcEnd)))) \<le> 4"
    and "length (FormatInt (fst (Varint (subslice g rdStart rdEnd)))) \<le> 4"
    using assms by (simp_all add: spec_text_layout_def padded_base36_def fieldSize_def)
  then show "- (36 ^ 7) < fst (Varint (subslice g tsStart tsEnd)) \<and>
         fst (Varint (subslice g tsStart tsEnd)) < 36 ^ 8"
    and "- (36 ^ 3) < fst (Varint (subslice g fpStart fpEnd)) \<and>
         fst (Varint (subslice g fpStart fpEnd)) < 36 ^ 4"
    and "- (36 ^ 3) < fst (Varint (subslice g icStart icEnd)) \<and>
         fst (Varint (subslice g icStart icEnd)) < 36 ^ 4"
    and "- (36 ^ 3) < fst (Varint (subslice g dcStart dcEnd)) \<and>
         fst (Varint (subslice g dcStart dcEnd)) < 36 ^ 4"
    and "- (36 ^ 3) < fst (Varint (subslice g rdStart rdEnd)) \<and>
         fst (Varint (subslice g rdStart rdEnd)) < 36 ^ 4"
    by (simp_all add: FormatInt_fits_iff)
qed

lemma padded_base36_leftPad:
  "length (FormatInt v) \<le> n \<Longrightarrow> padded_base36 v n (leftPad (FormatInt v) n)"
  by (simp add: padded_base36_def leftPad_def)

text \<open>The fields of the GUID of the tests, and of a GUID whose fingerprint decodes to \<open>-1\<close>.\<close>

lemma example_fields:
  "(1622222222222 :: int) = fst (Varint (subslice example_GUID tsStart tsEnd))"
  "(2222 :: int) = fst (Varint (subslice example_GUID fpStart fpEnd))"
  "(500 :: int) = fst (Varint (subslice example_GUID icStart icEnd))"
  "(1000 :: int) = fst (Varint (subslice example_GUID dcStart dcEnd))"
  "(315530 :: int) = fst (Varint (subslice example_GUID rdStart rdEnd))"
  by (simp_all add: example_GUID_def subslice_def layout_defs Varint_def Uvarint_def
      MaxVarintLen64_def Let_def)

lemma negative_fields:
  "(0 :: int) = fst (Varint (subslice (GUID_zero[10 := 0x01]) tsStart tsEnd))"
  "(- 1 :: int) = fst (Varint (subslice (GUID_zero[10 := 0x01]) fpStart fpEnd))"
  "(0 :: int) = fst (Varint (subslice (GUID_zero[10 := 0x01]) icStart icEnd))"
  "(0 :: int) = fst (Varint (subslice (GUID_zero[10 := 0x01]) dcStart dcEnd))"
  "(0 :: int) = fst (Varint (subslice (GUID_zero[10 := 0x01]) rdStart rdEnd))"
  by (simp_all add: GUID_zero_bytes subslice_def layout_defs Varint_def Uvarint_def
      MaxVarintLen64_def Let_def)

text \<open>
  With fingerprint bytes that decode to \<open>-1\<close> the text has 26 characters, the fingerprint
  piece being \<^verbatim>\<open>00-1\<close>.
\<close>

lemma negative_fingerprint_text:
  "String (GUID_zero[10 := 0x01]) =
     [0, 0, 0x30, 0x30, 0x30, 0x30, 0x30, 0x30, 0x30, 0x30, 0x30, 0x30, 0x2d, 0x31,
      0x30, 0x30, 0x30, 0x30, 0x30, 0x30, 0x30, 0x30, 0x30, 0x30, 0x30, 0x30]"
  by (simp add: eval_defs GUID_zero_bytes replicate_numeral_Cons not_128_le_1)

text \<open>
  Claim C8, as amended. For every GUID whose decoded timestamp lies strictly between
  \<open>- 36^7\<close> and \<open>36^8\<close> and whose decoded fingerprint, counters and random value lie
  strictly between \<open>- 36^3\<close> and \<open>1679616\<close> (the values whose base-36 text, sign included,
  has at most 8 and at most 4 characters), \<^verbatim>\<open>String\<close> returns exactly 26 characters:
  the 2 raw prefix bytes, then the timestamp in base 36 left-padded to 8 characters, then
  fingerprint, increment counter, decrement counter and random value, each in base 36
  left-padded to 4 characters; the string has the layout of the spec.
\<close>

theorem String_layout:
  assumes "is_GUID g"
    and "ts = fst (Varint (subslice g tsStart tsEnd))" "- (36 ^ 7) < ts" "ts < 36 ^ 8"
    and "fp = fst (Varint (subslice g fpStart fpEnd))" "- (36 ^ 3) < fp" "fp < maxInt"
    and "ic = fst (Varint (subslice g icStart icEnd))" "- (36 ^ 3) < ic" "ic < maxInt"
    and "dc = fst (Varint (subslice g dcStart dcEnd))" "- (36 ^ 3) < dc" "dc < maxInt"
    and "rd = fst (Varint (subslice g rdStart rdEnd))" "- (36 ^ 3) < rd" "rd < maxInt"
  shows "length (String g) = 26 \<and>
         String g = subslice g 0 2 @ leftPad (FormatInt ts) 8 @ leftPad (FormatInt fp) 4 @
           leftPad (FormatInt ic) 4 @ leftPad (FormatInt dc) 4 @ leftPad (FormatInt rd) 4 \<and>
         length (leftPad (FormatInt ts) 8) = 8 \<and> length (leftPad (FormatInt fp) 4) = 4 \<and>
         length (leftPad (FormatInt ic) 4) = 4 \<and> length (leftPad (FormatInt dc) 4) = 4 \<and>
         length (leftPad (FormatInt rd) 4) = 4 \<and>
         spec_text_layout g (String g)"
proof -
  from assms(1) obtain p t f i d r where
    gf: "g = p @ t @ f @ i @ d @ r" and
    len: "length p = 2" "length t = 8" "length f = 4" "length i = 4" "length d = 4" "length r = 4"
    by (rule GUID_fields)
  note sl = subslice_fields[OF len]
  have v: "fst (Varint t) = ts" "fst (Varint f) = fp" "fst (Varint i) = ic"
      "fst (Varint d) = dc" "fst (Varint r) = rd"
    using assms by (simp_all add: gf sl)
  have fit: "length (FormatInt ts) \<le> 8" "length (FormatInt fp) \<le> 4"
      "length (FormatInt ic) \<le> 4" "length (FormatInt dc) \<le> 4" "length (FormatInt rd) \<le> 4"
    using assms(3,4,6,7,9,10,12,13,15,16)
    by (simp_all add: FormatInt_fits_iff maxInt_def)
  let ?T = "leftPad (FormatInt ts) 8" and ?F = "leftPad (FormatInt fp) 4"
  let ?I = "leftPad (FormatInt ic) 4" and ?D = "leftPad (FormatInt dc) 4"
  let ?R = "leftPad (FormatInt rd) 4"
  note pl = leftPad_length[OF fit(1)] leftPad_length[OF fit(2)] leftPad_length[OF fit(3)]
    leftPad_length[OF fit(4)] leftPad_length[OF fit(5)]
  have str: "String g = p @ ?T @ ?F @ ?I @ ?D @ ?R"
    unfolding gf String_fields[OF len] v ..
  note ssl = subslice_fields[OF len(1) pl]
  have l26: "length (String g) = 26" unfolding str using len(1) pl by simp
  have lay: "spec_text_layout g (String g)"
    unfolding spec_text_layout_def str ssl
    using l26[unfolded str] fit
    by (simp add: gf sl v padded_base36_leftPad fieldSize_def byteSize_def)
  from str l26 pl lay show ?thesis by (simp add: gf sl)
qed

theorem String_layout_witness:
  "is_GUID example_GUID \<and>
   (1622222222222 :: int) = fst (Varint (subslice example_GUID tsStart tsEnd)) \<and>
   - (36 ^ 7) < (1622222222222 :: int) \<and> (1622222222222 :: int) < 36 ^ 8 \<and>
   (2222 :: int) = fst (Varint (subslice example_GUID fpStart fpEnd)) \<and>
   - (36 ^ 3) < (2222 :: int) \<and> 2222 < maxInt \<and>
   (500 :: int) = fst (Varint (subslice example_GUID icStart icEnd)) \<and>
   - (36 ^ 3) < (500 :: int) \<and> 500 < maxInt \<and>
   (1000 :: int) = fst (Varint (subslice example_GUID dcStart dcEnd)) \<and>
   - (36 ^ 3) < (1000 :: int) \<and> 1000 < maxInt \<and>
   (315530 :: int) = fst (Varint (subslice example_GUID rdStart rdEnd)) \<and>
   - (36 ^ 3) < (315530 :: int) \<and> 315530 < maxInt \<and>
   length (String example_GUID) = 26 \<and>
   spec_text_layout example_GUID (String example_GUID) \<and>
   is_GUID (GUID_zero[10 := 0x01]) \<and>
   (- 1 :: int) = fst (Varint (subslice (GUID_zero[10 := 0x01]) fpStart fpEnd)) \<and>
   - (36 ^ 3) < (- 1 :: int) \<and> - 1 < maxInt \<and>
   length (String (GUID_zero[10 := 0x01])) = 26 \<and>
   spec_text_layout (GUID_zero[10 := 0x01]) (String (GUID_zero[10 := 0x01]))"
proof -
  have r: "- (36 ^ 7) < (1622222222222 :: int)" "(1622222222222 :: int) < 36 ^ 8"
    "- (36 ^ 3) < (2222 :: int)" "2222 < maxInt" "- (36 ^ 3) < (500 :: int)" "500 < maxInt"
    "- (36 ^ 3) < (1000 :: int)" "1000 < maxInt" "- (36 ^ 3) < (315530 :: int)" "315530 < maxInt"
    by (simp_all add: maxInt_def)
  have n: "- (36 ^ 7) < (0 :: int)" "(0 :: int) < 36 ^ 8" "- (36 ^ 3) < (0 :: int)" "0 < maxInt"
    "- (36 ^ 3) < (- 1 :: int)" "- 1 < maxInt"
    by (simp_all add: maxInt_def)
  have g: "is_GUID (GUID_zero[10 := 0x01])" by (simp add: is_GUID_def GUID_zero_def)
  note v = example_fields and w = negative_fields
  from String_layout[OF example_GUID_is_GUID v(1) r(1,2) v(2) r(3,4) v(3) r(5,6) v(4) r(7,8)
      v(5) r(9,10)]
    String_layout[OF g w(1) n(1,2) w(2) n(5,6) w(3) n(3,4) w(4) n(3,4) w(5) n(3,4)]
    v r w n g example_GUID_is_GUID
  show ?thesis by blast
qed

text \<open>
  Claim C8 as stated quantifies over every 26-byte array. A GUID whose fingerprint bytes
  decode to 2097152 has no text with the layout the claim describes, since 2097152 takes
  5 characters in base 36: no string at all has 26 characters with that fingerprint in
  base 36 in its 4-character piece, so the string \<^verbatim>\<open>String\<close> returns does not. The same
  holds of the GUID that \<^verbatim>\<open>SetTime\<close> returns for a time of \<open>36^8\<close> milliseconds after the
  epoch (in the year 2059), whose timestamp takes 9 characters. Neither statement refers
  to how \<^verbatim>\<open>leftPad\<close> treats a text longer than the width.
\<close>

theorem String_layout_impossible:
  "is_GUID (GUID_zero[10 := 0x80, 11 := 0x80, 12 := 0x80, 13 := 0x02]) \<and>
   fst (Varint (subslice (GUID_zero[10 := 0x80, 11 := 0x80, 12 := 0x80, 13 := 0x02]) fpStart fpEnd))
     = 2097152 \<and>
   \<not> spec_text_layout (GUID_zero[10 := 0x80, 11 := 0x80, 12 := 0x80, 13 := 0x02])
       (String (GUID_zero[10 := 0x80, 11 := 0x80, 12 := 0x80, 13 := 0x02])) \<and>
   (\<forall>s. \<not> spec_text_layout (GUID_zero[10 := 0x80, 11 := 0x80, 12 := 0x80, 13 := 0x02]) s) \<and>
   SetTime GUID_zero 2821109907456000000
     = Some (GUID_zero[2 := 0x80, 3 := 0x80, 4 := 0x88, 5 := 0xf4, 6 := 0x9a, 7 := 0xa4, 8 := 0x01]) \<and>
   fst (Varint (subslice
       (GUID_zero[2 := 0x80, 3 := 0x80, 4 := 0x88, 5 := 0xf4, 6 := 0x9a, 7 := 0xa4, 8 := 0x01])
       tsStart tsEnd)) = 36 ^ 8 \<and>
   (\<forall>s. \<not> spec_text_layout
       (GUID_zero[2 := 0x80, 3 := 0x80, 4 := 0x88, 5 := 0xf4, 6 := 0x9a, 7 := 0xa4, 8 := 0x01]) s)"
proof -
  let ?gF = "GUID_zero[10 := 0x80, 11 := 0x80, 12 := 0x80, 13 := 0x02]"
  let ?gT = "GUID_zero[2 := 0x80, 3 := 0x80, 4 := 0x88, 5 := 0xf4, 6 := 0x9a, 7 := 0xa4, 8 := 0x01]"
  have g: "is_GUID ?gF" by (simp add: is_GUID_def GUID_zero_def)
  have vF: "fst (Varint (subslice ?gF fpStart fpEnd)) = 2097152"
    by (simp add: GUID_zero_bytes subslice_def layout_defs Varint_def Uvarint_def
        MaxVarintLen64_def Let_def)
  have vT: "fst (Varint (subslice ?gT tsStart tsEnd)) = 36 ^ 8"
    by (simp add: GUID_zero_bytes subslice_def layout_defs Varint_def Uvarint_def
        MaxVarintLen64_def Let_def)
  have aF: "\<not> spec_text_layout ?gF s" for s
    using spec_text_layout_ranges(2)[of ?gF s] unfolding vF by auto
  have aT: "\<not> spec_text_layout ?gT s" for s
    using spec_text_layout_ranges(1)[of ?gT s] unfolding vT by auto
  have st: "SetTime GUID_zero 2821109907456000000 = Some ?gT"
    by (simp add: eval_defs GUID_zero_bytes not_128_le_1)
  from g vF vT aF aT st show ?thesis by blast
qed

text \<open>
  Claim C7. For every GUID, \<^verbatim>\<open>Slug\<close> returns exactly 12 characters, those of
  \<^verbatim>\<open>String\<close> at positions 6, 7, 8, 9, 16, 17, 20, 21, 22, 23, 24, 25 in that order.
  Consequently changing the prefix leaves the slug unchanged, and two GUIDs whose texts
  agree at these positions have the same slug.
\<close>

theorem Slug_positions:
  assumes "is_GUID g"
  shows "(\<exists>s. Slug g = Some s \<and> length s = 12 \<and>
            s = map (\<lambda>k. String g ! k) [6, 7, 8, 9, 16, 17, 20, 21, 22, 23, 24, 25]) \<and>
         Slug (WithPrefixBytes b1 b2 g) = Slug g \<and>
         (is_GUID g' \<and> (\<forall>k \<in> {6, 7, 8, 9, 16, 17, 20, 21, 22, 23, 24, 25}.
             String g' ! k = String g ! k) \<longrightarrow> Slug g' = Slug g)"
proof (intro conjI impI)
  have len: "25 < length (String g)" using String_length_ge[OF assms] by simp
  then show "\<exists>s. Slug g = Some s \<and> length s = 12 \<and>
            s = map (\<lambda>k. String g ! k) [6, 7, 8, 9, 16, 17, 20, 21, 22, 23, 24, 25]"
    by (simp add: Slug_def Let_def)
  have "25 < length (String (WithPrefixBytes b1 b2 g))"
    using String_length_ge[OF WithPrefixBytes_is_GUID[OF assms], of b1 b2] by simp
  then show "Slug (WithPrefixBytes b1 b2 g) = Slug g"
    using len by (simp add: Slug_def Let_def String_WithPrefixBytes[OF assms])
next
  assume a: "is_GUID g' \<and> (\<forall>k \<in> {6, 7, 8, 9, 16, 17, 20, 21, 22, 23, 24, 25}.
             String g' ! k = String g ! k)"
  have "25 < length (String g)" "25 < length (String g')"
    using String_length_ge[OF assms] String_length_ge[of g'] a by simp_all
  then show "Slug g' = Slug g" using a by (simp add: Slug_def Let_def)
qed

theorem Slug_positions_witness:
  "is_GUID example_GUID \<and> is_GUID other_GUID \<and>
   String other_GUID ! 6 = String example_GUID ! 6 \<and>
   String other_GUID ! 7 = String example_GUID ! 7 \<and>
   String other_GUID ! 8 = String example_GUID ! 8 \<and>
   String other_GUID ! 9 = String example_GUID ! 9 \<and>
   String other_GUID ! 16 = String example_GUID ! 16 \<and>
   String other_GUID ! 17 = String example_GUID ! 17 \<and>
   String other_GUID ! 20 = String example_GUID ! 20 \<and>
   String other_GUID ! 21 = String example_GUID ! 21 \<and>
   String other_GUID ! 22 = String example_GUID ! 22 \<and>
   String other_GUID ! 23 = String example_GUID ! 23 \<and>
   String other_GUID ! 24 = String example_GUID ! 24 \<and>
   String other_GUID ! 25 = String example_GUID ! 25 \<and>
   String other_GUID \<noteq> String example_GUID \<and>
   Slug example_GUID =
     Some [0x38, 0x35, 0x6e, 0x32, 0x64, 0x77, 0x72, 0x73, 0x36, 0x72, 0x67, 0x71] \<and>
   Slug (WithPrefixBytes 0x6e 0x77 example_GUID) = Slug example_GUID \<and>
   Slug other_GUID = Slug example_GUID"
proof -
  have o: "is_GUID other_GUID" by (simp add: is_GUID_def other_GUID_def byteSize_def)
  have so: "String other_GUID =
     [0x6e, 0x77, 0x6b, 0x70, 0x38, 0x6c, 0x38, 0x35, 0x6e, 0x32, 0x30, 0x30, 0x30, 0x31,
      0x30, 0x30, 0x64, 0x77, 0x30, 0x30, 0x72, 0x73, 0x36, 0x72, 0x67, 0x71]"
    by (simp add: eval_defs other_GUID_def replicate_numeral_Cons)
  have eq: "\<forall>k \<in> {6, 7, 8, 9, 16, 17, 20, 21, 22, 23, 24, 25}.
      String other_GUID ! k = String example_GUID ! k"
    by (simp add: so String_example example_text_def)
  have ne: "String other_GUID \<noteq> String example_GUID"
    by (simp add: so String_example example_text_def)
  from Slug_positions[where g = example_GUID and ?b1.0 = "0x6e" and ?b2.0 = "0x77"
      and g' = other_GUID] o eq ne
  show ?thesis using example_GUID_is_GUID by (simp add: String_example example_text_def)
qed

section \<open>Parsing\<close>

text \<open>
  Claim C5. For every byte sequence whose length is not 26, \<^verbatim>\<open>Parse\<close> returns the zero
  GUID and the length error; no field is parsed.
\<close>

theorem Parse_InvalidLength:
  "length inp \<noteq> byteSize \<Longrightarrow> Parse inp = Some (GUID_zero, Some InvalidLength)"
  by (simp add: Parse_def)

theorem Parse_InvalidLength_witness:
  "length [0x6e, 0x6f, 0x70, 0x65 :: byte] \<noteq> byteSize \<and>
   Parse [0x6e, 0x6f, 0x70, 0x65] = Some (GUID_zero, Some InvalidLength)"
  using Parse_InvalidLength[of "[0x6e, 0x6f, 0x70, 0x65]"]
  by (simp add: byteSize_def)

lemma canonical_is_GUID: "canonical S g \<Longrightarrow> is_GUID g"
  by (erule canonicalE) (simp add: fields_is_GUID clean_field_length)

lemma setters_defined:
  assumes g: "is_GUID g"
  shows "0 \<le> Milliseconds unixNano \<Longrightarrow> Milliseconds unixNano < 36 ^ 8 \<Longrightarrow>
           \<exists>g'. SetTime g unixNano = Some g'"
    and "\<exists>g'. SetFingerprint g v = Some g'"
    and "\<exists>g'. SetCounters g incr decr = Some g'"
    and "\<exists>g'. SetRandom g v = Some g'"
proof -
  from g obtain p t f i d r where
    gf: "g = p @ t @ f @ i @ d @ r" and
    len: "length p = 2" "length t = 8" "length f = 4" "length i = 4" "length d = 4" "length r = 4"
    by (rule GUID_fields)
  note put = PutVarint_at_fields[OF len]
  show "\<exists>g'. SetTime g unixNano = Some g'"
    if "0 \<le> Milliseconds unixNano" "Milliseconds unixNano < 36 ^ 8"
  proof -
    have "- (2 ^ 55) \<le> Milliseconds unixNano" "Milliseconds unixNano < 2 ^ 55"
      using that by simp_all
    from PutVarint_field8[OF len(2) this] show ?thesis
      by (auto simp: SetTime_def gf put)
  qed
  show "\<exists>g'. SetFingerprint g v = Some g'"
    using PutVarint_filter_guid[OF len(3), of v] by (auto simp: SetFingerprint_def gf put)
  show "\<exists>g'. SetRandom g v = Some g'"
    using PutVarint_filter_guid[OF len(6), of v] by (auto simp: SetRandom_def gf put)
  obtain i' where i': "PutVarint i (filter_guid incr) = Some i'" "length i' = 4"
    using PutVarint_filter_guid[OF len(4)] by blast
  show "\<exists>g'. SetCounters g incr decr = Some g'"
    using PutVarint_filter_guid[OF len(5), of decr]
      PutVarint_at_fields(4)[OF len(1,2,3) i'(2) len(5,6), of "filter_guid decr"]
    by (auto simp: SetCounters_def gf put i')
qed

lemma apply_calls_built:
  assumes "built S g" "list_all call_in_range cs" "distinct (concat (map call_fields cs))"
    "set (concat (map call_fields cs)) \<inter> S = {}"
  shows "\<exists>g' S'. apply_calls cs g = Some g' \<and> built S' g'"
  using assms
proof (induction cs arbitrary: S g)
  case Nil
  then show ?case by auto
next
  case (Cons c cs)
  have gg: "is_GUID g" using Cons.prems(1) by (intro canonical_is_GUID built_canonical)
  have "\<exists>g1 S1. apply_call c g = Some g1 \<and> built S1 g1 \<and> S1 = S \<union> set (call_fields c)"
  proof (cases c)
    case (Call_WithPrefixBytes b1 b2)
    then show ?thesis using Cons.prems(1) by (auto intro: built_prefix)
  next
    case (Call_SetTime n)
    then have r: "0 \<le> Milliseconds n" "Milliseconds n < 36 ^ 8" "TimeField \<notin> S"
      using Cons.prems by auto
    from setters_defined(1)[OF gg r(1,2)] obtain g1 where "SetTime g n = Some g1" by blast
    with built_time[OF Cons.prems(1) r(3) r(1,2) this] show ?thesis
      by (simp add: Call_SetTime)
  next
    case (Call_SetFingerprint v)
    then have r: "0 \<le> v" "v < maxInt" "FingerprintField \<notin> S"
      using Cons.prems by auto
    from setters_defined(2)[OF gg] obtain g1 where "SetFingerprint g v = Some g1" by blast
    with built_fingerprint[OF Cons.prems(1) r(3) r(1,2) this] show ?thesis
      by (simp add: Call_SetFingerprint)
  next
    case (Call_SetCounters a b)
    then have r: "0 \<le> a" "a < maxInt" "0 \<le> b" "b < maxInt" "CountersField \<notin> S"
      using Cons.prems by auto
    from setters_defined(3)[OF gg] obtain g1 where "SetCounters g a b = Some g1" by blast
    with built_counters[OF Cons.prems(1) r(5) r(1-4) this] show ?thesis
      by (simp add: Call_SetCounters)
  next
    case (Call_SetRandom v)
    then have r: "0 \<le> v" "v < maxInt" "RandomField \<notin> S"
      using Cons.prems by auto
    from setters_defined(4)[OF gg] obtain g1 where "SetRandom g v = Some g1" by blast
    with built_random[OF Cons.prems(1) r(3) r(1,2) this] show ?thesis
      by (simp add: Call_SetRandom)
  qed
  then obtain g1 where g1: "apply_call c g = Some g1" "built (S \<union> set (call_fields c)) g1"
    by blast
  have "\<exists>g' S'. apply_calls cs g1 = Some g' \<and> built S' g'"
    using Cons.prems by (intro Cons.IH[OF g1(2)]) auto
  then show ?case by (simp add: g1(1))
qed

text \<open>
  Claim C1, as amended. For every valid sequence of setter calls applied to the zero GUID
  (any prefix; each of \<^verbatim>\<open>SetTime\<close>, \<^verbatim>\<open>SetFingerprint\<close>, \<^verbatim>\<open>SetCounters\<close> and
  \<^verbatim>\<open>SetRandom\<close> called at most once, in any order; the time between 0 and
  \<open>36^8 - 1\<close> milliseconds after the epoch; the numeric values in \<open>[0, 1679616)\<close>),
  the calls return a GUID, and parsing its text form returns the same 26 bytes and no
  error.
\<close>

theorem Parse_String_setter_calls:
  assumes "valid_calls cs"
  shows "\<exists>g. apply_calls cs GUID_zero = Some g \<and> Parse (String g) = Some (g, None)"
proof -
  from assms have "\<exists>g S. apply_calls cs GUID_zero = Some g \<and> built S g"
    unfolding valid_calls_def by (intro apply_calls_built[OF built_zero]) auto
  then show ?thesis by (auto intro: canonical_roundtrip built_canonical)
qed

theorem Parse_String_setter_calls_witness:
  "valid_calls [Call_WithPrefixBytes 0x78 0x6f, Call_SetRandom 315530, Call_SetCounters 500 1000,
     Call_SetTime 1622222222222000000, Call_SetFingerprint 2222] \<and>
   apply_calls [Call_WithPrefixBytes 0x78 0x6f, Call_SetRandom 315530, Call_SetCounters 500 1000,
     Call_SetTime 1622222222222000000, Call_SetFingerprint 2222] GUID_zero = Some example_GUID \<and>
   Parse (String example_GUID) = Some (example_GUID, None)"
proof -
  have v: "valid_calls [Call_WithPrefixBytes 0x78 0x6f, Call_SetRandom 315530,
     Call_SetCounters 500 1000, Call_SetTime 1622222222222000000, Call_SetFingerprint 2222]"
    by (simp add: valid_calls_def maxInt_def Milliseconds_def)
  have a: "apply_calls [Call_WithPrefixBytes 0x78 0x6f, Call_SetRandom 315530,
     Call_SetCounters 500 1000, Call_SetTime 1622222222222000000, Call_SetFingerprint 2222]
     GUID_zero = Some example_GUID"
    by (simp add: step_SetRandom step_SetCounters step_SetTime step_SetFingerprint)
  from Parse_String_setter_calls[OF v] v a show ?thesis by simp
qed

text \<open>
  Claim C1 as stated fails in three ways, each with every numeric value in range. A second
  \<^verbatim>\<open>SetFingerprint\<close> call with a shorter encoding leaves a byte of the first one behind,
  which the text form does not carry: parsing returns a different GUID. A time before the
  epoch gives a text with a minus sign inside the padding, which \<^verbatim>\<open>Parse\<close> rejects. A
  time of \<open>36^8\<close> milliseconds or more gives a text of 27 characters, which \<^verbatim>\<open>Parse\<close>
  rejects for its length.
\<close>

theorem Parse_String_not_identity:
  "SetFingerprint GUID_zero 1000 = Some (GUID_zero[10 := 0xd0, 11 := 0x0f]) \<and>
   SetFingerprint (GUID_zero[10 := 0xd0, 11 := 0x0f]) 1 = Some (GUID_zero[10 := 0x02, 11 := 0x0f]) \<and>
   Parse (String (GUID_zero[10 := 0x02, 11 := 0x0f])) = Some (GUID_zero[10 := 0x02], None) \<and>
   GUID_zero[10 := 0x02] \<noteq> GUID_zero[10 := 0x02, 11 := 0x0f] \<and>
   SetTime GUID_zero (- 1000000) = Some (GUID_zero[2 := 0x01]) \<and>
   Parse (String (GUID_zero[2 := 0x01])) = Some (GUID_zero, Some (InvalidTimestamp ErrSyntax)) \<and>
   SetTime GUID_zero 2821109907456000000
     = Some (GUID_zero[2 := 0x80, 3 := 0x80, 4 := 0x88, 5 := 0xf4, 6 := 0x9a, 7 := 0xa4, 8 := 0x01]) \<and>
   Parse (String (GUID_zero[2 := 0x80, 3 := 0x80, 4 := 0x88, 5 := 0xf4, 6 := 0x9a, 7 := 0xa4, 8 := 0x01]))
     = Some (GUID_zero, Some InvalidLength)"
proof (intro conjI)
  show "SetFingerprint GUID_zero 1000 = Some (GUID_zero[10 := 0xd0, 11 := 0x0f])"
    by (simp add: eval_defs GUID_zero_bytes not_128_le_1)
  show "SetFingerprint (GUID_zero[10 := 0xd0, 11 := 0x0f]) 1 = Some (GUID_zero[10 := 0x02, 11 := 0x0f])"
    by (simp add: eval_defs GUID_zero_bytes not_128_le_1)
  show "Parse (String (GUID_zero[10 := 0x02, 11 := 0x0f])) = Some (GUID_zero[10 := 0x02], None)"
    by (simp add: eval_defs GUID_zero_bytes replicate_numeral_Cons not_128_le_1)
  show "GUID_zero[10 := 0x02] \<noteq> GUID_zero[10 := 0x02, 11 := 0x0f]"
    by (simp add: GUID_zero_bytes)
  show "SetTime GUID_zero (- 1000000) = Some (GUID_zero[2 := 0x01])"
    by (simp add: eval_defs GUID_zero_bytes not_128_le_1)
  show "Parse (String (GUID_zero[2 := 0x01])) = Some (GUID_zero, Some (InvalidTimestamp ErrSyntax))"
    by (simp add: eval_defs GUID_zero_bytes replicate_numeral_Cons not_128_le_1)
  show "SetTime GUID_zero 2821109907456000000
     = Some (GUID_zero[2 := 0x80, 3 := 0x80, 4 := 0x88, 5 := 0xf4, 6 := 0x9a, 7 := 0xa4, 8 := 0x01])"
    by (simp add: eval_defs GUID_zero_bytes not_128_le_1)
  show "Parse (String (GUID_zero[2 := 0x80, 3 := 0x80, 4 := 0x88, 5 := 0xf4, 6 := 0x9a, 7 := 0xa4, 8 := 0x01]))
     = Some (GUID_zero, Some InvalidLength)"
    by (simp add: eval_defs GUID_zero_bytes replicate_numeral_Cons not_128_le_1)
qed

section \<open>The signer: the loops\<close>

lemma sign_loop_length: "length (sign_loop g i j sm) = length sm"
  by (induction g i j sm rule: sign_loop.induct) (subst sign_loop.simps, simp add: Let_def)

lemma sign_loop_nth:
  "2 \<le> i \<Longrightarrow> i \<le> 14 \<Longrightarrow> i + j = 33 \<Longrightarrow> length sm = 32 \<Longrightarrow> k < 32 \<Longrightarrow>
   sign_loop g i j sm ! k =
     (if i \<le> k + 2 \<and> k < 12 then sm ! k OR g ! (k + 2)
      else if 20 \<le> k \<and> k \<le> j then sm ! k OR g ! (k - 6)
      else sm ! k)"
proof (induction g i j sm rule: sign_loop.induct)
  case (1 g i j sm)
  show ?case
  proof (cases "i < 14")
    case False
    with "1.prems" show ?thesis by (subst sign_loop.simps) auto
  next
    case True
    let ?sm1 = "sm[i - 2 := sm ! (i - 2) OR g ! i]"
    let ?sm2 = "?sm1[j := ?sm1 ! j OR g ! (j - 6)]"
    have step: "sign_loop g i j sm = sign_loop g (i + 1) (j - 1) ?sm2"
      using True by (subst sign_loop.simps) (simp add: Let_def)
    have ih: "sign_loop g (i + 1) (j - 1) ?sm2 ! k =
       (if i + 1 \<le> k + 2 \<and> k < 12 then ?sm2 ! k OR g ! (k + 2)
        else if 20 \<le> k \<and> k \<le> j - 1 then ?sm2 ! k OR g ! (k - 6)
        else ?sm2 ! k)"
      using "1.IH"[OF True refl refl] True "1.prems" by simp
    have i2: "Suc (Suc (i - 2)) = i" "k + 2 = i \<longleftrightarrow> k = i - 2" using "1.prems" by auto
    show ?thesis
      unfolding step ih using True "1.prems" i2
      by (auto simp: nth_list_update)
  qed
qed

lemma didSign_loop_iff:
  "2 \<le> i \<Longrightarrow> i \<le> 14 \<Longrightarrow> i + j = 33 \<Longrightarrow>
   didSign_loop g sm i j \<longleftrightarrow>
     (\<forall>k. i \<le> k \<and> k < 14 \<longrightarrow>
        sm ! (k - 2) AND g ! k = g ! k \<and> sm ! (33 - k) AND g ! (27 - k) = g ! (27 - k))"
proof (induction g sm i j rule: didSign_loop.induct)
  case (1 g sm i j)
  show ?case
  proof (cases "i < 14")
    case False
    then show ?thesis by (subst didSign_loop.simps) auto
  next
    case True
    have j: "j = 33 - i" "j - 6 = 27 - i" using "1.prems" by auto
    have split: "(\<forall>k. i \<le> k \<and> k < 14 \<longrightarrow> P k) \<longleftrightarrow> P i \<and> (\<forall>k. i + 1 \<le> k \<and> k < 14 \<longrightarrow> P k)" for P
    proof -
      have "i \<le> k \<longleftrightarrow> k = i \<or> i + 1 \<le> k" for k by auto
      then show ?thesis using True by auto
    qed
    show ?thesis
    proof (cases "sm ! (i - 2) AND g ! i \<noteq> g ! i \<or> sm ! j AND g ! (j - 6) \<noteq> g ! (j - 6)")
      case True
      then show ?thesis using \<open>i < 14\<close> j
        by (subst didSign_loop.simps) (auto intro: exI[of _ i])
    next
      case False
      then have "didSign_loop g sm i j = didSign_loop g sm (i + 1) (j - 1)"
        using True by (subst didSign_loop.simps) simp
      also have "\<dots> \<longleftrightarrow> (\<forall>k. i + 1 \<le> k \<and> k < 14 \<longrightarrow>
        sm ! (k - 2) AND g ! k = g ! k \<and> sm ! (33 - k) AND g ! (27 - k) = g ! (27 - k))"
        using "1.IH" True False "1.prems" by simp
      finally show ?thesis using False j by (subst split) simp
    qed
  qed
qed

section \<open>Hex encoding and decoding\<close>

lemma hi_nibble: "unat (drop_bit 4 (v::byte)) < 16"
proof -
  have "unat v < 256" using unsigned_less[of v, where ?'a=nat] by simp
  moreover have "unat (drop_bit 4 v) = unat v div 2 ^ 4"
    by (simp add: drop_bit_eq_div unat_div)
  ultimately show ?thesis by simp
qed

lemma lo_nibble: "unat ((v::byte) AND 0x0f) < 16"
proof -
  have "unat (v AND 15) \<le> unat (15 :: byte)"
    by (rule word_and_le1 [THEN word_le_nat_alt [THEN iffD1]])
  then show ?thesis by simp
qed

lemma mask15: "(v::byte) AND 0x0f = take_bit 4 v"
  by (simp add: take_bit_eq_mask mask_eq_exp_minus_1)

lemma nibbles: "push_bit 4 (drop_bit 4 v) OR (v AND 0x0f) = (v::byte)"
  unfolding mask15
  by (rule bit_word_eqI) (auto simp: bit_simps)

lemma hextable_entries:
  "list_all (\<lambda>n. reverseHexTable (hextable ! n) = of_nat n) [0..<16]"
  by code_simp

lemma reverseHexTable_hextable: "n < 16 \<Longrightarrow> reverseHexTable (hextable ! n) = of_nat n"
  using hextable_entries by (simp add: list_all_iff)

lemma hex_roundtrip: "hex_DecodeString (hex_Encode bs) = Inr bs"
proof (induction bs)
  case Nil show ?case by simp
next
  case (Cons v bs)
  have a: "reverseHexTable (hextable ! unat (drop_bit 4 v)) = drop_bit 4 v"
    using reverseHexTable_hextable[OF hi_nibble[of v]] by simp
  have b: "reverseHexTable (hextable ! unat (v AND 0x0f)) = v AND 0x0f"
    using reverseHexTable_hextable[OF lo_nibble[of v]] by simp
  have c: "\<not> drop_bit 4 v > 0x0f" using hi_nibble[of v] by (simp add: word_less_nat_alt)
  have d: "\<not> (v AND 0x0f) > 0x0f" using lo_nibble[of v] by (simp add: word_less_nat_alt)
  show ?case using Cons a b c d nibbles[of v] by (simp add: Let_def)
qed

lemma or_and_absorb: "(a OR b) AND b = (b::byte)"
  by (simp add: bit_eq_iff bit_simps)

lemma Sign_bytes:
  assumes "length sm = 32"
  shows "(let s1 = sign_loop g 2 31 sm; s2 = s1[12 := s1 ! 12 OR g ! 0] in s2[13 := s2 ! 13 OR g ! 1])
         = folded_digest g sm"
proof (rule nth_equalityI)
  show "length (let s1 = sign_loop g 2 31 sm; s2 = s1[12 := s1 ! 12 OR g ! 0] in s2[13 := s2 ! 13 OR g ! 1])
        = length (folded_digest g sm)"
    using assms by (simp add: Let_def sign_loop_length folded_digest_def)
next
  fix k assume "k < length (let s1 = sign_loop g 2 31 sm; s2 = s1[12 := s1 ! 12 OR g ! 0] in s2[13 := s2 ! 13 OR g ! 1])"
  then have k: "k < 32" using assms by (simp add: Let_def sign_loop_length)
  have nth: "sign_loop g 2 31 sm ! m =
     (if m < 12 then sm ! m OR g ! (m + 2)
      else if 20 \<le> m then sm ! m OR g ! (m - 6)
      else sm ! m)" if "m < 32" for m
    using sign_loop_nth[of 2 31 sm m g] that assms by auto
  show "(let s1 = sign_loop g 2 31 sm; s2 = s1[12 := s1 ! 12 OR g ! 0] in s2[13 := s2 ! 13 OR g ! 1]) ! k
        = folded_digest g sm ! k"
    using k assms by (auto simp: Let_def nth_list_update sign_loop_length nth folded_digest_def)
qed

section \<open>The signer: signing and verifying\<close>

lemma Sign_eq:
  assumes "inp \<noteq> []" "length (Sum256 inp) = sha256_Size"
  shows "Sign Sum256 g inp = Some (hex_Encode (folded_digest g (Sum256 inp)))"
proof -
  have "length (Sum256 inp) = 32" using assms by (simp add: sha256_Size_def)
  from Sign_bytes[OF this, of g] show ?thesis
    using assms by (simp add: Sign_def sha256_Size_def Let_def)
qed

lemma DidSign_iff:
  assumes "hex_DecodeString s = Inr sm" "length sm = sha256_Size"
  shows "DidSign g s \<longleftrightarrow>
     sm ! 12 AND g ! 0 = g ! 0 \<and> sm ! 13 AND g ! 1 = g ! 1 \<and>
     (\<forall>k. 2 \<le> k \<and> k < 14 \<longrightarrow>
        sm ! (k - 2) AND g ! k = g ! k \<and> sm ! (33 - k) AND g ! (27 - k) = g ! (27 - k))"
  using assms didSign_loop_iff[of 2 31 g sm]
  by (simp add: DidSign_def sha256_Size_def)

lemma folded_digest_length: "length (folded_digest g sm) = sha256_Size"
  by (simp add: folded_digest_def sha256_Size_def)

lemma folded_digest_nth:
  "k < 32 \<Longrightarrow> folded_digest g sm ! k =
     (if k < 12 then sm ! k OR g ! (k + 2)
      else if k = 12 then sm ! 12 OR g ! 0
      else if k = 13 then sm ! 13 OR g ! 1
      else if 20 \<le> k then sm ! k OR g ! (k - 6)
      else sm ! k)"
  unfolding folded_digest_def by (simp del: upt_Suc)

text \<open>
  Claim C2, as amended. For a GUID \<open>g\<close> and non-empty data \<open>d\<close>, \<^verbatim>\<open>Sign\<close> returns the
  hex encoding of 32 bytes that differ from the digest of \<open>d\<close> as follows: digest bytes
  0-11 are OR-ed with GUID bytes 2-13 (timestamp and fingerprint), digest bytes 12-13
  with GUID bytes 0-1 (the prefix), and digest bytes 20-31 with GUID bytes 14-25 (the
  counters and the random value, byte \<open>k\<close> with GUID byte \<open>k - 6\<close>); digest bytes 14-19
  are those of the plain digest.
\<close>

theorem Sign_fold_positions:
  assumes "is_GUID g" "d \<noteq> []" "length (Sum256 d) = sha256_Size"
  shows "\<exists>sm'. Sign Sum256 g d = Some (hex_Encode sm') \<and> length sm' = sha256_Size \<and>
     (\<forall>k<12. sm' ! k = Sum256 d ! k OR g ! (k + 2)) \<and>
     sm' ! 12 = Sum256 d ! 12 OR g ! 0 \<and>
     sm' ! 13 = Sum256 d ! 13 OR g ! 1 \<and>
     (\<forall>k. 14 \<le> k \<and> k < 20 \<longrightarrow> sm' ! k = Sum256 d ! k) \<and>
     (\<forall>k. 20 \<le> k \<and> k < 32 \<longrightarrow> sm' ! k = Sum256 d ! k OR g ! (k - 6))"
proof (intro exI conjI)
  show "Sign Sum256 g d = Some (hex_Encode (folded_digest g (Sum256 d)))"
    using assms by (simp add: Sign_eq)
  show "length (folded_digest g (Sum256 d)) = sha256_Size"
    by (rule folded_digest_length)
qed (simp_all add: folded_digest_nth)

theorem Sign_fold_positions_witness:
  "is_GUID example_GUID \<and> [0x78 :: byte] \<noteq> [] \<and>
   length (Sum256_example [0x78]) = sha256_Size \<and>
   (\<exists>sm'. Sign Sum256_example example_GUID [0x78] = Some (hex_Encode sm') \<and>
      length sm' = sha256_Size \<and>
     (\<forall>k<12. sm' ! k = Sum256_example [0x78] ! k OR example_GUID ! (k + 2)) \<and>
     sm' ! 12 = Sum256_example [0x78] ! 12 OR example_GUID ! 0 \<and>
     sm' ! 13 = Sum256_example [0x78] ! 13 OR example_GUID ! 1 \<and>
     (\<forall>k. 14 \<le> k \<and> k < 20 \<longrightarrow> sm' ! k = Sum256_example [0x78] ! k) \<and>
     (\<forall>k. 20 \<le> k \<and> k < 32 \<longrightarrow>
        sm' ! k = Sum256_example [0x78] ! k OR example_GUID ! (k - 6)))"
proof -
  have "length (Sum256_example [0x78]) = sha256_Size"
    by (simp add: Sum256_example_def sha256_Size_def)
  from Sign_fold_positions[of example_GUID "[0x78]" Sum256_example] this example_GUID_is_GUID
  show ?thesis by simp
qed

text \<open>
  Claim C2 as stated names GUID bytes 0-13 as the only bytes folded into the digest.
  Two GUIDs that agree on bytes 0-13 and differ in byte 25 sign the same data
  differently.
\<close>

theorem Sign_depends_on_random_bytes:
  "is_GUID (GUID_zero[25 := 0xff]) \<and>
   take 14 (GUID_zero[25 := 0xff]) = take 14 GUID_zero \<and>
   Sign Sum256_example (GUID_zero[25 := 0xff]) [0x78] \<noteq> Sign Sum256_example GUID_zero [0x78]"
proof (intro conjI)
  show "is_GUID (GUID_zero[25 := 0xff])" by (simp add: is_GUID_def GUID_zero_def)
  show "take 14 (GUID_zero[25 := 0xff]) = take 14 GUID_zero"
    by (simp add: GUID_zero_def byteSize_def)
  have len: "length (Sum256_example [0x78]) = sha256_Size"
    by (simp add: Sum256_example_def sha256_Size_def)
  have a: "folded_digest (GUID_zero[25 := 0xff]) (Sum256_example [0x78]) ! 31 = 0xff"
    by (simp add: folded_digest_nth GUID_zero_def byteSize_def Sum256_example_def)
  have b: "folded_digest GUID_zero (Sum256_example [0x78]) ! 31 = 0x81"
    by (simp add: folded_digest_nth GUID_zero_def byteSize_def Sum256_example_def)
  have "hex_Encode (folded_digest (GUID_zero[25 := 0xff]) (Sum256_example [0x78]))
        \<noteq> hex_Encode (folded_digest GUID_zero (Sum256_example [0x78]))"
  proof
    assume "hex_Encode (folded_digest (GUID_zero[25 := 0xff]) (Sum256_example [0x78]))
        = hex_Encode (folded_digest GUID_zero (Sum256_example [0x78]))"
    then have "hex_DecodeString (hex_Encode (folded_digest (GUID_zero[25 := 0xff]) (Sum256_example [0x78])))
        = hex_DecodeString (hex_Encode (folded_digest GUID_zero (Sum256_example [0x78])))"
      by simp
    then have "folded_digest (GUID_zero[25 := 0xff]) (Sum256_example [0x78])
        = folded_digest GUID_zero (Sum256_example [0x78])"
      by (simp add: hex_roundtrip)
    with a b show False by simp
  qed
  then show "Sign Sum256_example (GUID_zero[25 := 0xff]) [0x78] \<noteq> Sign Sum256_example GUID_zero [0x78]"
    using len by (simp add: Sign_eq)
qed

text \<open>
  Claim C3. For a GUID \<open>g\<close> and non-empty data \<open>d\<close>, \<^verbatim>\<open>Sign\<close> returns a signature and
  \<^verbatim>\<open>DidSign\<close> accepts it: \<open>DidSign(g, Sign(g, d)) = true\<close>.
\<close>

theorem Sign_DidSign:
  assumes "is_GUID g" "d \<noteq> []" "length (Sum256 d) = sha256_Size"
  shows "\<exists>sig. Sign Sum256 g d = Some sig \<and> DidSign g sig = True"
proof -
  let ?sm = "folded_digest g (Sum256 d)"
  have s: "Sign Sum256 g d = Some (hex_Encode ?sm)" using assms Sign_eq by simp
  note len = folded_digest_length[of g "Sum256 d"]
  note nth = folded_digest_nth[of _ g "Sum256 d"]
  have "DidSign g (hex_Encode ?sm)"
    unfolding DidSign_iff[OF hex_roundtrip len]
  proof (intro conjI allI impI)
    show "?sm ! 12 AND g ! 0 = g ! 0" by (simp add: nth or_and_absorb)
    show "?sm ! 13 AND g ! 1 = g ! 1" by (simp add: nth or_and_absorb)
  next
    fix k :: nat assume k: "2 \<le> k \<and> k < 14"
    then have "k - 2 < 12" "k - 2 + 2 = k" by auto
    then show "?sm ! (k - 2) AND g ! k = g ! k" by (simp add: nth or_and_absorb)
    from k have "33 - k < 32" "20 \<le> 33 - k" "33 - k - 6 = 27 - k" by auto
    then show "?sm ! (33 - k) AND g ! (27 - k) = g ! (27 - k)" by (simp add: nth or_and_absorb)
  qed
  with s show ?thesis by simp
qed

theorem Sign_DidSign_witness:
  "is_GUID example_GUID \<and> [0x78 :: byte] \<noteq> [] \<and>
   length (Sum256_example [0x78]) = sha256_Size \<and>
   (\<exists>sig. Sign Sum256_example example_GUID [0x78] = Some sig \<and> DidSign example_GUID sig = True)"
  using Sign_DidSign[of example_GUID "[0x78]" Sum256_example] example_GUID_is_GUID
  by (simp add: Sum256_example_def sha256_Size_def)

text \<open>
  Claim C6. \<^verbatim>\<open>Sign\<close> and \<^verbatim>\<open>DidSign\<close> have no error result: \<^verbatim>\<open>Sign\<close> returns the absent
  result (\<^verbatim>\<open>nil\<close>) exactly when the data is empty, and \<^verbatim>\<open>DidSign\<close> returns false for
  every string that is not valid hex or that does not decode to exactly 32 bytes. (Both
  index the 26-byte and 32-byte arrays at constant positions inside them, so neither has
  a run-time panic to model.)
\<close>

theorem Sign_DidSign_no_error:
  assumes "is_GUID g"
  shows "(Sign Sum256 g d = None \<longleftrightarrow> d = []) \<and>
         ((\<forall>sm. hex_DecodeString s = Inr sm \<longrightarrow> length sm \<noteq> sha256_Size)
            \<longrightarrow> DidSign g s = False)"
  by (auto simp: Sign_def DidSign_def Let_def split: sum.splits)

theorem Sign_DidSign_no_error_witness:
  "is_GUID example_GUID \<and>
   hex_DecodeString [0x7a, 0x7a] = Inl (InvalidByteError 0x7a) \<and>
   Sign Sum256_example example_GUID [] = None \<and>
   DidSign example_GUID [0x7a, 0x7a] = False"
proof -
  have h: "hex_DecodeString [0x7a, 0x7a] = Inl (InvalidByteError 0x7a)"
    by (simp add: reverseHexTable_def)
  from Sign_DidSign_no_error[OF example_GUID_is_GUID, of Sum256_example "[]" "[0x7a, 0x7a]"] h
  show ?thesis using example_GUID_is_GUID by simp
qed

text \<open>
  Claim C10. For the all-zero GUID, \<^verbatim>\<open>DidSign\<close> returns true on every string that
  decodes as hex to exactly 32 bytes, whatever the bytes are.
\<close>

theorem DidSign_zero:
  assumes "hex_DecodeString s = Inr sm" "length sm = sha256_Size"
  shows "DidSign GUID_zero s = True"
proof -
  have z: "GUID_zero ! k = 0" if "k < 26" for k
    using that by (simp add: GUID_zero_def byteSize_def)
  show ?thesis
    unfolding DidSign_iff[OF assms]
    by (auto simp: z)
qed

theorem DidSign_zero_witness:
  "hex_DecodeString (hex_Encode (Sum256_example [0x78])) = Inr (Sum256_example [0x78]) \<and>
   length (Sum256_example [0x78]) = sha256_Size \<and>
   DidSign GUID_zero (hex_Encode (Sum256_example [0x78])) = True"
proof -
  have len: "length (Sum256_example [0x78]) = sha256_Size"
    by (simp add: Sum256_example_def sha256_Size_def)
  from DidSign_zero[OF hex_roundtrip len] len show ?thesis
    by (simp add: hex_roundtrip)
qed

section \<open>The test of signer\_test.go\<close>

text \<open>
  The embedding computes the signature that the repository's test expects. Its bytes 20-31
  carry the counters and the random value of the GUID (byte 30 is \<open>0x48 OR 0x98\<close>).
\<close>

lemma Parse_signer_test: "Parse signer_test_text = Some (signer_test_GUID, None)"
  by (simp add: eval_defs signer_test_text_def signer_test_GUID_def GUID_zero_bytes not_128_le_1)

lemma Sign_signer_test:
  "Sign Sum256_example signer_test_GUID [0x78] = Some signer_test_signature"
  by (simp add: Sign_eq Sum256_example_def sha256_Size_def folded_digest_def
      signer_test_GUID_def signer_test_signature_def hextable_def upt_rec[of _ "numeral _"])

end
